theory Spec2Isabelle
  imports Complex_Main "HOL-Library.Signed_Division" "HOL-Library.Multiset"
begin

section \<open>Data model\<close>

text \<open>
  The bot keeps three MongoDB collections (User, Reward, Referral) and one in-memory map
  (\<^verbatim>\<open>pendingRewardUploads\<close>). A collection is a list of documents in insertion order;
  a document is identified by its position, which plays the part of MongoDB's \<^verbatim>\<open>_id\<close>
  (no handler ever deletes a document). The \<^verbatim>\<open>createdAt\<close> and \<^verbatim>\<open>date\<close> fields are
  never read by the program and are left out.

  A JavaScript number is either \<^verbatim>\<open>NaN\<close> or an integer here: the identities, counters
  and thresholds the bot works with are integers. \<^verbatim>\<open>Number(s)\<close>, the parser of the
  JavaScript runtime, is a parameter \<open>num\<close> of every handler that calls it.
\<close>

datatype jsnum = NaN | Finite int

record user =
  userId :: int
  username :: "string option"
  inviteLink :: "string option"
  invitedUsers :: "int list"
  invitesCount :: int
  rewardsClaimed :: "string list"

record reward =
  rewardId :: string
  fileId :: string
  threshold :: int

record referral =
  joinedUserId :: int
  inviterUserId :: int
  chatId :: "jsnum option"

record pending =
  pending_rewardId :: string
  pending_threshold :: int

record state =
  users :: "user list"
  rewards :: "reward list"
  referrals :: "referral list"
  pendingRewardUploads :: "int \<rightharpoonup> pending"

definition init_state :: state where
  "init_state = \<lparr>users = [], rewards = [], referrals = [], pendingRewardUploads = Map.empty\<rparr>"

text \<open>The environment variables read at start-up.\<close>

record config =
  CHANNEL_ID :: string
  ADMIN_ID :: int
  INVITES_PER_REWARD :: int
  LEADERBOARD_SIZE :: nat

subsection \<open>Incoming updates\<close>

record tg_user =
  tg_id :: int
  tg_username :: "string option"
  first_name :: string

record document =
  mime_type :: "string option"
  file_name :: "string option"
  file_id :: string

record chat_member_updated =
  chat_id :: int
  chat_username :: "string option"
  old_status :: "string option"
  new_status :: "string option"
  new_user_id :: int
  invite_link :: "string option"

text \<open>
  One constructor per registered handler. A command carries \<^verbatim>\<open>ctx.from\<close> (absent on
  channel posts). \<open>CmdUser\<close> and \<open>CmdBroadcast\<close> carry the text after the command word,
  trimmed (\<^verbatim>\<open>text.split(' ').slice(1).join(' ').trim()\<close>); \<open>CmdReward\<close> carries
  \<^verbatim>\<open>text.trim().split(/\s+/)\<close>.
\<close>

datatype update =
    CmdStart "tg_user option"
  | CmdLink "tg_user option"
  | CmdMyInvites "tg_user option"
  | CmdRewards "tg_user option"
  | CmdTop
  | CmdStats "tg_user option"
  | CmdUser "tg_user option" string
  | CmdBroadcast "tg_user option" string
  | CmdRewardsList "tg_user option"
  | CmdReward "tg_user option" "string list"
  | OnDocument "tg_user option" document
  | OnChatMember chat_member_updated
  | CmdHelp

subsection \<open>Outgoing effects\<close>

text \<open>
  What a handler does to the outside world, in the order it does it. A message is the
  template of the source with the values it interpolates.
\<close>

datatype progress = Progress int jsnum jsnum

datatype message =
    MsgStart string string int
  | MsgLink string
  | MsgMyInvites user progress
  | MsgNoRewardsYet
  | MsgUnlocked "string list"
  | MsgNoData
  | MsgTop "user list"
  | MsgStats nat nat nat
  | MsgUsageUser
  | MsgUserNotFound
  | MsgUserInfo user
  | MsgUsageBroadcast
  | MsgText string
  | MsgBroadcastDone nat nat
  | MsgNoRewardsSaved
  | MsgRewardsList "reward list"
  | MsgUsageReward
  | MsgSendZip string int
  | MsgPleaseZip
  | MsgSaved string int
  | MsgNewMember int
  | MsgHelp

datatype effect =
    Reply message
  | SendMessage int message bool
  | SendDocument int reward bool
  | LogFailedReward string
  | LogFailedDM
  | UserCreate int
  | UserSave int
  | ReferralCreate int int bool
  | RewardUpsert string
  | Thrown

text \<open>
  The outcome of the Telegram calls made while one update is handled:
  \<^verbatim>\<open>createChatInviteLink\<close> returns a link or throws (\<open>None\<close>), \<^verbatim>\<open>sendMessage\<close> to a
  chat and \<^verbatim>\<open>sendDocument\<close> of a reward to a chat succeed or throw.
\<close>

record env =
  createChatInviteLink :: "string option"
  sendMessage :: "int \<Rightarrow> bool"
  sendDocument :: "int \<Rightarrow> reward \<Rightarrow> bool"

section \<open>Helpers\<close>

text \<open>A string is truthy when it is present and not empty.\<close>

definition truthy :: "string option \<Rightarrow> bool" where
  "truthy s = (case s of None \<Rightarrow> False | Some t \<Rightarrow> t \<noteq> [])"

definition startsWith :: "string \<Rightarrow> string \<Rightarrow> bool" where
  "startsWith s p = (take (length p) s = p)"

definition endsWith :: "string \<Rightarrow> string \<Rightarrow> bool" where
  "endsWith s p = (length p \<le> length s \<and> drop (length s - length p) s = p)"

fun includes_str :: "string \<Rightarrow> string \<Rightarrow> bool" where
  "includes_str [] p = (p = [])"
| "includes_str (c # cs) p = (take (length p) (c # cs) = p \<or> includes_str cs p)"

text \<open>\<^verbatim>\<open>toLowerCase\<close> on the ASCII letters; other bytes are kept.\<close>

definition lower_char :: "char \<Rightarrow> char" where
  "lower_char c = (let n = (of_char c :: nat) in if 65 \<le> n \<and> n \<le> 90 then char_of (n + 32) else c)"

definition toLowerCase :: "string \<Rightarrow> string" where
  "toLowerCase s = map lower_char s"

text \<open>\<^verbatim>\<open>findOne\<close>: the position of the first document that matches.\<close>

fun findOne :: "('a \<Rightarrow> bool) \<Rightarrow> 'a list \<Rightarrow> nat option" where
  "findOne P [] = None"
| "findOne P (x # xs) = (if P x then Some 0 else map_option Suc (findOne P xs))"

text \<open>\<^verbatim>\<open>doc.save()\<close>: the document at position \<open>i\<close> is replaced.\<close>

definition save :: "nat \<Rightarrow> user \<Rightarrow> state \<Rightarrow> state" where
  "save i u s = s\<lparr>users := (users s)[i := u]\<rparr>"

text \<open>Strict equality of numbers: \<^verbatim>\<open>NaN\<close> equals nothing.\<close>

fun strict_eq :: "jsnum \<Rightarrow> jsnum \<Rightarrow> bool" where
  "strict_eq (Finite a) (Finite b) = (a = b)"
| "strict_eq _ _ = False"

datatype chat_ref = StrId string | NumId jsnum

definition normalizeChatId :: "(string \<Rightarrow> jsnum) \<Rightarrow> string \<Rightarrow> chat_ref" where
  "normalizeChatId num cid = (if startsWith cid ''@'' then StrId cid else NumId (num cid))"

definition CHANNEL_CHAT_ID :: "(string \<Rightarrow> jsnum) \<Rightarrow> config \<Rightarrow> chat_ref" where
  "CHANNEL_CHAT_ID num cfg = normalizeChatId num (CHANNEL_ID cfg)"

definition isAdmin :: "config \<Rightarrow> tg_user option \<Rightarrow> bool" where
  "isAdmin cfg frm = (case frm of None \<Rightarrow> False | Some f \<Rightarrow> tg_id f = ADMIN_ID cfg)"

section \<open>Reward dispatch\<close>

text \<open>
  The loop of \<^verbatim>\<open>sendDueRewards\<close>: each reward of \<open>toSend\<close> is sent in turn; a reward that
  was sent is pushed on \<^verbatim>\<open>rewardsClaimed\<close>, a failure is logged and the loop goes on.
\<close>

fun send_loop :: "env \<Rightarrow> int \<Rightarrow> reward list \<Rightarrow> string list \<Rightarrow> string list \<times> effect list" where
  "send_loop e uid [] claimed = (claimed, [])"
| "send_loop e uid (r # rs) claimed =
     (if sendDocument e uid r
      then (case send_loop e uid rs (claimed @ [rewardId r]) of
              (c, fx) \<Rightarrow> (c, SendDocument uid r True # fx))
      else (case send_loop e uid rs claimed of
              (c, fx) \<Rightarrow> (c, SendDocument uid r False # LogFailedReward (rewardId r) # fx)))"

definition due :: "user \<Rightarrow> reward \<Rightarrow> bool" where
  "due inviter r = (threshold r \<le> invitesCount inviter \<and> rewardId r \<notin> set (rewardsClaimed inviter))"

text \<open>
  \<^verbatim>\<open>sendDueRewards(ctx, inviter)\<close>: \<open>i\<close> is the position of the inviter's document, \<open>inviter\<close>
  the document as the caller holds it. The result is the store, the caller's document and
  the effects.
\<close>

definition sendDueRewards :: "env \<Rightarrow> nat \<Rightarrow> user \<Rightarrow> state \<Rightarrow> state \<times> user \<times> effect list" where
  "sendDueRewards e i inviter s =
     (let sorted_rewards = sort_key threshold (rewards s) in
      if sorted_rewards = [] then (s, inviter, [])
      else
        let toSend = filter (due inviter) sorted_rewards in
        case send_loop e (userId inviter) toSend (rewardsClaimed inviter) of
          (claimed, fx) \<Rightarrow>
            let inviter' = inviter\<lparr>rewardsClaimed := claimed\<rparr> in
            if toSend \<noteq> [] then (save i inviter' s, inviter', fx @ [UserSave (userId inviter')])
            else (s, inviter', fx))"

section \<open>Progress text\<close>

text \<open>
  \<^verbatim>\<open>Math.ceil((invites + 1) / step) * step\<close> and \<^verbatim>\<open>step - invites % step\<close>. Division by
  zero gives an infinity or \<^verbatim>\<open>NaN\<close>, and both end as \<^verbatim>\<open>NaN\<close>; \<^verbatim>\<open>%\<close> takes the sign of the
  dividend.
\<close>

definition progress_next :: "int \<Rightarrow> int \<Rightarrow> jsnum" where
  "progress_next invites step =
     (if step = 0 then NaN
      else Finite (\<lceil>real_of_int (invites + 1) / real_of_int step\<rceil> * step))"

definition progress_left :: "int \<Rightarrow> int \<Rightarrow> jsnum" where
  "progress_left invites step =
     (if step = 0 then NaN else Finite (step - invites smod step))"

definition progressText :: "int \<Rightarrow> int \<Rightarrow> progress" where
  "progressText invites step = Progress invites (progress_next invites step) (progress_left invites step)"

section \<open>User helpers\<close>

text \<open>\<^verbatim>\<open>User.create({ userId, username })\<close> with the defaults of the schema.\<close>

definition new_user :: "int \<Rightarrow> string option \<Rightarrow> user" where
  "new_user uid uname =
     \<lparr>userId = uid, username = uname, inviteLink = None, invitedUsers = [],
      invitesCount = 0, rewardsClaimed = []\<rparr>"

text \<open>\<^verbatim>\<open>ensureUser(ctx.from)\<close>: the store, the position of the user's document, the effects.\<close>

definition ensureUser :: "tg_user \<Rightarrow> state \<Rightarrow> state \<times> nat \<times> effect list" where
  "ensureUser f s =
     (case findOne (\<lambda>u. userId u = tg_id f) (users s) of
        None \<Rightarrow>
          (s\<lparr>users := users s @ [new_user (tg_id f) (tg_username f)]\<rparr>, length (users s),
           [UserCreate (tg_id f)])
      | Some i \<Rightarrow>
          if username (users s ! i) \<noteq> tg_username f
          then (save i ((users s ! i)\<lparr>username := tg_username f\<rparr>) s, i, [UserSave (tg_id f)])
          else (s, i, []))"

text \<open>
  \<^verbatim>\<open>getOrCreateInviteLinkForUser(user)\<close> for the document at position \<open>i\<close>: the link is
  \<open>None\<close> when \<^verbatim>\<open>createChatInviteLink\<close> threw.
\<close>

definition getOrCreateInviteLinkForUser :: "env \<Rightarrow> nat \<Rightarrow> state \<Rightarrow> state \<times> string option \<times> effect list" where
  "getOrCreateInviteLinkForUser e i s =
     (let u = users s ! i in
      if truthy (inviteLink u) then (s, inviteLink u, [])
      else
        case createChatInviteLink e of
          None \<Rightarrow> (s, None, [Thrown])
        | Some l \<Rightarrow> (save i (u\<lparr>inviteLink := Some l\<rparr>) s, Some l, [UserSave (userId u)]))"

section \<open>User commands\<close>

definition on_start :: "config \<Rightarrow> env \<Rightarrow> tg_user option \<Rightarrow> state \<Rightarrow> state \<times> effect list" where
  "on_start cfg e frm s =
     (case frm of
        None \<Rightarrow> (s, [Thrown])
      | Some f \<Rightarrow>
          (case ensureUser f s of
             (s1, i, fx1) \<Rightarrow>
               (case getOrCreateInviteLinkForUser e i s1 of
                  (s2, None, fx2) \<Rightarrow> (s2, fx1 @ fx2)
                | (s2, Some l, fx2) \<Rightarrow>
                    (s2, fx1 @ fx2 @ [Reply (MsgStart (first_name f) l (INVITES_PER_REWARD cfg))]))))"

definition on_link :: "env \<Rightarrow> tg_user option \<Rightarrow> state \<Rightarrow> state \<times> effect list" where
  "on_link e frm s =
     (case frm of
        None \<Rightarrow> (s, [Thrown])
      | Some f \<Rightarrow>
          (case ensureUser f s of
             (s1, i, fx1) \<Rightarrow>
               (case getOrCreateInviteLinkForUser e i s1 of
                  (s2, None, fx2) \<Rightarrow> (s2, fx1 @ fx2)
                | (s2, Some l, fx2) \<Rightarrow> (s2, fx1 @ fx2 @ [Reply (MsgLink l)]))))"

definition on_myinvites :: "config \<Rightarrow> tg_user option \<Rightarrow> state \<Rightarrow> state \<times> effect list" where
  "on_myinvites cfg frm s =
     (case frm of
        None \<Rightarrow> (s, [Thrown])
      | Some f \<Rightarrow>
          (case ensureUser f s of
             (s1, i, fx1) \<Rightarrow>
               (let u = users s1 ! i in
                (s1, fx1 @ [Reply (MsgMyInvites u
                       (progressText (invitesCount u) (INVITES_PER_REWARD cfg)))]))))"

definition on_rewards :: "tg_user option \<Rightarrow> state \<Rightarrow> state \<times> effect list" where
  "on_rewards frm s =
     (case frm of
        None \<Rightarrow> (s, [Thrown])
      | Some f \<Rightarrow>
          (case ensureUser f s of
             (s1, i, fx1) \<Rightarrow>
               (let u = users s1 ! i in
                if rewardsClaimed u = [] then (s1, fx1 @ [Reply MsgNoRewardsYet])
                else (s1, fx1 @ [Reply (MsgUnlocked (rewardsClaimed u))]))))"

text \<open>\<^verbatim>\<open>limit(n)\<close> of the database: a limit of 0 is no limit.\<close>

definition limit :: "nat \<Rightarrow> 'a list \<Rightarrow> 'a list" where
  "limit n xs = (if n = 0 then xs else take n xs)"

definition on_top :: "config \<Rightarrow> state \<Rightarrow> state \<times> effect list" where
  "on_top cfg s =
     (let top = limit (LEADERBOARD_SIZE cfg) (sort_key (\<lambda>u. - invitesCount u) (users s)) in
      if top = [] then (s, [Reply MsgNoData]) else (s, [Reply (MsgTop top)]))"

definition on_help :: "state \<Rightarrow> state \<times> effect list" where
  "on_help s = (s, [Reply MsgHelp])"

section \<open>Admin commands\<close>

definition on_stats :: "config \<Rightarrow> tg_user option \<Rightarrow> state \<Rightarrow> state \<times> effect list" where
  "on_stats cfg frm s =
     (if \<not> isAdmin cfg frm then (s, [])
      else (s, [Reply (MsgStats (length (users s)) (length (referrals s))
                         (length (filter (\<lambda>u. 0 < invitesCount u) (users s))))]))"

text \<open>A query on \<^verbatim>\<open>userId: NaN\<close> is a cast error of the database layer.\<close>

definition on_user :: "(string \<Rightarrow> jsnum) \<Rightarrow> config \<Rightarrow> tg_user option \<Rightarrow> string \<Rightarrow> state \<Rightarrow> state \<times> effect list" where
  "on_user num cfg frm arg s =
     (if \<not> isAdmin cfg frm then (s, [])
      else if arg = [] then (s, [Reply MsgUsageUser])
      else
        let found =
          (if startsWith arg ''@'' then Some (findOne (\<lambda>u. username u = Some (tl arg)) (users s))
           else (case num arg of
                   NaN \<Rightarrow> None
                 | Finite n \<Rightarrow> Some (findOne (\<lambda>u. userId u = n) (users s))))
        in case found of
             None \<Rightarrow> (s, [Thrown])
           | Some None \<Rightarrow> (s, [Reply MsgUserNotFound])
           | Some (Some i) \<Rightarrow> (s, [Reply (MsgUserInfo (users s ! i))]))"

fun broadcast_loop :: "env \<Rightarrow> string \<Rightarrow> user list \<Rightarrow> nat \<Rightarrow> nat \<Rightarrow> nat \<times> nat \<times> effect list" where
  "broadcast_loop e msg [] ok fail = (ok, fail, [])"
| "broadcast_loop e msg (u # us) ok fail =
     (if sendMessage e (userId u)
      then (case broadcast_loop e msg us (ok + 1) fail of
              (k, f, fx) \<Rightarrow> (k, f, SendMessage (userId u) (MsgText msg) True # fx))
      else (case broadcast_loop e msg us ok (fail + 1) of
              (k, f, fx) \<Rightarrow> (k, f, SendMessage (userId u) (MsgText msg) False # fx)))"

definition on_broadcast :: "config \<Rightarrow> env \<Rightarrow> tg_user option \<Rightarrow> string \<Rightarrow> state \<Rightarrow> state \<times> effect list" where
  "on_broadcast cfg e frm msg s =
     (if \<not> isAdmin cfg frm then (s, [])
      else if msg = [] then (s, [Reply MsgUsageBroadcast])
      else
        case broadcast_loop e msg (users s) 0 0 of
          (k, f, fx) \<Rightarrow> (s, fx @ [Reply (MsgBroadcastDone k f)]))"

definition on_rewardslist :: "config \<Rightarrow> tg_user option \<Rightarrow> state \<Rightarrow> state \<times> effect list" where
  "on_rewardslist cfg frm s =
     (if \<not> isAdmin cfg frm then (s, [])
      else
        let sorted_rewards = sort_key threshold (rewards s) in
        if sorted_rewards = [] then (s, [Reply MsgNoRewardsSaved])
        else (s, [Reply (MsgRewardsList sorted_rewards)]))"

text \<open>
  \<^verbatim>\<open>/reward <id> [threshold]\<close>. \<^verbatim>\<open>parts[2]\<close> is \<^verbatim>\<open>undefined\<close> when the command has two
  words, and \<^verbatim>\<open>Number(undefined)\<close> is \<^verbatim>\<open>NaN\<close>.
\<close>

definition reward_threshold :: "(string \<Rightarrow> jsnum) \<Rightarrow> config \<Rightarrow> string list \<Rightarrow> int" where
  "reward_threshold num cfg parts =
     (case (if 2 < length parts then num (parts ! 2) else NaN) of
        Finite t \<Rightarrow> t
      | NaN \<Rightarrow>
          (case num (parts ! 1) of
             Finite asNum \<Rightarrow> asNum * INVITES_PER_REWARD cfg
           | NaN \<Rightarrow> INVITES_PER_REWARD cfg))"

definition on_reward :: "(string \<Rightarrow> jsnum) \<Rightarrow> config \<Rightarrow> tg_user option \<Rightarrow> string list \<Rightarrow> state \<Rightarrow> state \<times> effect list" where
  "on_reward num cfg frm parts s =
     (case frm of
        None \<Rightarrow> (s, [])
      | Some f \<Rightarrow>
          if \<not> isAdmin cfg frm then (s, [])
          else if length parts < 2 then (s, [Reply MsgUsageReward])
          else
            let rid = parts ! 1; thr = reward_threshold num cfg parts in
            (s\<lparr>pendingRewardUploads :=
                 (pendingRewardUploads s)(tg_id f \<mapsto> \<lparr>pending_rewardId = rid, pending_threshold = thr\<rparr>)\<rparr>,
             [Reply (MsgSendZip rid thr)]))"

definition isZip :: "document \<Rightarrow> bool" where
  "isZip doc =
     ((case mime_type doc of None \<Rightarrow> False | Some m \<Rightarrow> m \<noteq> [] \<and> includes_str m ''zip'') \<or>
      (case file_name doc of None \<Rightarrow> False | Some n \<Rightarrow> n \<noteq> [] \<and> endsWith (toLowerCase n) ''.zip''))"

text \<open>
  \<^verbatim>\<open>Reward.findOneAndUpdate({ rewardId }, { rewardId, fileId, threshold }, { upsert: true })\<close>.
\<close>

definition upsert_reward :: "string \<Rightarrow> string \<Rightarrow> int \<Rightarrow> reward list \<Rightarrow> reward list" where
  "upsert_reward rid fid thr rs =
     (case findOne (\<lambda>r. rewardId r = rid) rs of
        None \<Rightarrow> rs @ [\<lparr>rewardId = rid, fileId = fid, threshold = thr\<rparr>]
      | Some i \<Rightarrow> rs[i := (rs ! i)\<lparr>rewardId := rid, fileId := fid, threshold := thr\<rparr>])"

definition on_document :: "config \<Rightarrow> tg_user option \<Rightarrow> document \<Rightarrow> state \<Rightarrow> state \<times> effect list" where
  "on_document cfg frm doc s =
     (case frm of
        None \<Rightarrow> (s, [])
      | Some f \<Rightarrow>
          if \<not> isAdmin cfg frm then (s, [])
          else
            case pendingRewardUploads s (tg_id f) of
              None \<Rightarrow> (s, [])
            | Some p \<Rightarrow>
                if \<not> isZip doc then (s, [Reply MsgPleaseZip])
                else
                  (s\<lparr>rewards := upsert_reward (pending_rewardId p) (file_id doc) (pending_threshold p) (rewards s),
                     pendingRewardUploads := (pendingRewardUploads s)(tg_id f := None)\<rparr>,
                   [RewardUpsert (pending_rewardId p),
                    Reply (MsgSaved (pending_rewardId p) (pending_threshold p))]))"

section \<open>Join tracking\<close>

text \<open>
  The channel guard of the \<^verbatim>\<open>chat_member\<close> handler compares values of mixed types with
  \<^verbatim>\<open>!==\<close>: a number and a string are never equal.
\<close>

datatype jsval = VStr string | VNum jsnum

fun strict_neq :: "jsval \<Rightarrow> jsval \<Rightarrow> bool" where
  "strict_neq (VStr a) (VStr b) = (a \<noteq> b)"
| "strict_neq (VNum a) (VNum b) = (\<not> strict_eq a b)"
| "strict_neq _ _ = True"

text \<open>\<^verbatim>\<open>upd.chat?.username ? '@' + upd.chat.username : null\<close>\<close>

definition at_username :: "chat_member_updated \<Rightarrow> string option" where
  "at_username upd =
     (case chat_username upd of
        None \<Rightarrow> None
      | Some n \<Rightarrow> if n = [] then None else Some (''@'' @ n))"

text \<open>The guard returns (the update is dropped) exactly when this holds.\<close>

definition channel_rejected :: "(string \<Rightarrow> jsnum) \<Rightarrow> config \<Rightarrow> chat_member_updated \<Rightarrow> bool" where
  "channel_rejected num cfg upd =
     (let chatId = VNum (Finite (chat_id upd));
          expected =
            (case CHANNEL_CHAT_ID num cfg of
               StrId c \<Rightarrow> (case at_username upd of Some n \<Rightarrow> VStr n | None \<Rightarrow> chatId)
             | NumId n \<Rightarrow> VNum n)
      in
      if strict_neq chatId expected then
        (case CHANNEL_CHAT_ID num cfg of
           StrId c \<Rightarrow>
             if startsWith c ''@'' then at_username upd \<noteq> Some (CHANNEL_ID cfg) else False
         | NumId n \<Rightarrow> strict_neq chatId (VNum n))
      else False)"

definition becomes_member :: "chat_member_updated \<Rightarrow> bool" where
  "becomes_member upd = (new_status upd = Some ''member'' \<and> old_status upd \<noteq> Some ''member'')"

text \<open>
  \<^verbatim>\<open>Referral.create\<close>: \<^verbatim>\<open>joinedUserId\<close> carries a unique index, so the insert throws
  when a record of that joined user exists.
\<close>

definition Referral_create :: "referral \<Rightarrow> referral list \<Rightarrow> referral list option" where
  "Referral_create r rs =
     (if joinedUserId r \<in> set (map joinedUserId rs) then None else Some (rs @ [r]))"

definition referral_chatId :: "(string \<Rightarrow> jsnum) \<Rightarrow> config \<Rightarrow> jsnum option" where
  "referral_chatId num cfg = (case CHANNEL_CHAT_ID num cfg of NumId n \<Rightarrow> Some n | StrId c \<Rightarrow> None)"

text \<open>The update of the inviter's statistics after the insert.\<close>

definition credit :: "int \<Rightarrow> user \<Rightarrow> user" where
  "credit joined inviter =
     (let inviter1 =
            (if joined \<in> set (invitedUsers inviter) then inviter
             else inviter\<lparr>invitedUsers := invitedUsers inviter @ [joined]\<rparr>)
      in inviter1\<lparr>invitesCount := int (length (invitedUsers inviter1))\<rparr>)"

definition on_chat_member :: "(string \<Rightarrow> jsnum) \<Rightarrow> config \<Rightarrow> env \<Rightarrow> chat_member_updated \<Rightarrow> state \<Rightarrow> state \<times> effect list" where
  "on_chat_member num cfg e upd s =
     (if channel_rejected num cfg upd then (s, [])
      else if becomes_member upd then
        (let joined = new_user_id upd in
         if \<not> truthy (invite_link upd) then (s, [])
         else
           case findOne (\<lambda>u. inviteLink u = invite_link upd) (users s) of
             None \<Rightarrow> (s, [])
           | Some i \<Rightarrow>
               let inviter = users s ! i in
               if userId inviter = joined then (s, [])
               else
                 case Referral_create
                        \<lparr>joinedUserId = joined, inviterUserId = userId inviter,
                         chatId = referral_chatId num cfg\<rparr> (referrals s) of
                   None \<Rightarrow> (s, [ReferralCreate joined (userId inviter) False])
                 | Some rs \<Rightarrow>
                     let inviter' = credit joined inviter;
                         s2 = save i inviter' (s\<lparr>referrals := rs\<rparr>);
                         fx = [ReferralCreate joined (userId inviter) True, UserSave (userId inviter)];
                         note = MsgNewMember (invitesCount inviter')
                     in
                     if sendMessage e (userId inviter) then
                       (case sendDueRewards e i inviter' s2 of
                          (s3, u3, fx3) \<Rightarrow>
                            (s3, fx @ [SendMessage (userId inviter) note True] @ fx3))
                     else (s2, fx @ [SendMessage (userId inviter) note False, LogFailedDM]))
      else (s, []))"

section \<open>The bot as a transition system\<close>

fun handle_update :: "(string \<Rightarrow> jsnum) \<Rightarrow> config \<Rightarrow> env \<Rightarrow> update \<Rightarrow> state \<Rightarrow> state \<times> effect list" where
  "handle_update num cfg e (CmdStart frm) s = on_start cfg e frm s"
| "handle_update num cfg e (CmdLink frm) s = on_link e frm s"
| "handle_update num cfg e (CmdMyInvites frm) s = on_myinvites cfg frm s"
| "handle_update num cfg e (CmdRewards frm) s = on_rewards frm s"
| "handle_update num cfg e CmdTop s = on_top cfg s"
| "handle_update num cfg e (CmdStats frm) s = on_stats cfg frm s"
| "handle_update num cfg e (CmdUser frm arg) s = on_user num cfg frm arg s"
| "handle_update num cfg e (CmdBroadcast frm msg) s = on_broadcast cfg e frm msg s"
| "handle_update num cfg e (CmdRewardsList frm) s = on_rewardslist cfg frm s"
| "handle_update num cfg e (CmdReward frm parts) s = on_reward num cfg frm parts s"
| "handle_update num cfg e (OnDocument frm doc) s = on_document cfg frm doc s"
| "handle_update num cfg e (OnChatMember upd) s = on_chat_member num cfg e upd s"
| "handle_update num cfg e CmdHelp s = on_help s"

text \<open>
  The updates handled one after the other, each with the outcomes of its own calls: the
  bot when no two handlers are in flight together.
\<close>

fun run :: "(string \<Rightarrow> jsnum) \<Rightarrow> config \<Rightarrow> (env \<times> update) list \<Rightarrow> state \<Rightarrow> state" where
  "run num cfg [] s = s"
| "run num cfg (eu # tr) s = run num cfg tr (fst (handle_update num cfg (fst eu) (snd eu) s))"

subsection \<open>The join handlers of one batch, interleaved\<close>

text \<open>
  The bot polls for updates, and the updates of one batch are handled together: each
  handler runs until its next \<^verbatim>\<open>await\<close>, and another handler may run before it goes on.
  The \<^verbatim>\<open>chat_member\<close> handler awaits \<^verbatim>\<open>User.findOne\<close>, \<^verbatim>\<open>Referral.create\<close>,
  \<^verbatim>\<open>inviter.save\<close>, \<^verbatim>\<open>sendMessage\<close>, and inside \<^verbatim>\<open>sendDueRewards\<close> the query of the
  rewards, the sends and the second \<^verbatim>\<open>inviter.save\<close>. A handler in flight is at one of
  these points and holds its own copy of the inviter's document. The sends do not touch
  the store, so the query of the rewards and the sends are one step here.
\<close>

datatype join_proc =
    Arrived chat_member_updated
  | Found chat_member_updated nat user
  | Created nat user user
  | Saved nat user
  | Notified nat user
  | Delivered nat user user
  | Finished

text \<open>
  \<^verbatim>\<open>doc.save()\<close> of a document that was loaded as \<open>loaded\<close> and is now \<open>doc\<close> in memory: the
  database layer sends the changes only, a push for the elements pushed on an array and a
  set for a field whose value changed, and the database applies them to the document it
  stores at that moment.
\<close>

definition save_changes :: "nat \<Rightarrow> user \<Rightarrow> user \<Rightarrow> state \<Rightarrow> state" where
  "save_changes i loaded doc s =
     (let stored = users s ! i;
          stored' = stored
            \<lparr>invitedUsers :=
               invitedUsers stored @ drop (length (invitedUsers loaded)) (invitedUsers doc),
             invitesCount :=
               (if invitesCount doc \<noteq> invitesCount loaded then invitesCount doc
                else invitesCount stored),
             rewardsClaimed :=
               rewardsClaimed stored @ drop (length (rewardsClaimed loaded)) (rewardsClaimed doc)\<rparr>
      in s\<lparr>users := (users s)[i := stored']\<rparr>)"

text \<open>One step of one handler: from one \<^verbatim>\<open>await\<close> to the next.\<close>

fun join_step :: "(string \<Rightarrow> jsnum) \<Rightarrow> config \<Rightarrow> env \<Rightarrow> join_proc \<Rightarrow> state \<Rightarrow> join_proc \<times> state" where
  "join_step num cfg e (Arrived upd) s =
     (if channel_rejected num cfg upd then (Finished, s)
      else if becomes_member upd then
        (if \<not> truthy (invite_link upd) then (Finished, s)
         else
           case findOne (\<lambda>u. inviteLink u = invite_link upd) (users s) of
             None \<Rightarrow> (Finished, s)
           | Some i \<Rightarrow>
               if userId (users s ! i) = new_user_id upd then (Finished, s)
               else (Found upd i (users s ! i), s))
      else (Finished, s))"
| "join_step num cfg e (Found upd i inviter) s =
     (case Referral_create
             \<lparr>joinedUserId = new_user_id upd, inviterUserId = userId inviter,
              chatId = referral_chatId num cfg\<rparr> (referrals s) of
        None \<Rightarrow> (Finished, s)
      | Some rs \<Rightarrow>
          (Created i inviter (credit (new_user_id upd) inviter), s\<lparr>referrals := rs\<rparr>))"
| "join_step num cfg e (Created i loaded inviter) s =
     (Saved i inviter, save_changes i loaded inviter s)"
| "join_step num cfg e (Saved i inviter) s =
     (if sendMessage e (userId inviter) then (Notified i inviter, s) else (Finished, s))"
| "join_step num cfg e (Notified i inviter) s =
     (let sorted_rewards = sort_key threshold (rewards s) in
      if sorted_rewards = [] then (Finished, s)
      else
        let toSend = filter (due inviter) sorted_rewards;
            claimed = fst (send_loop e (userId inviter) toSend (rewardsClaimed inviter))
        in if toSend \<noteq> [] then (Delivered i inviter (inviter\<lparr>rewardsClaimed := claimed\<rparr>), s)
           else (Finished, s))"
| "join_step num cfg e (Delivered i loaded inviter) s =
     (Finished, save_changes i loaded inviter s)"
| "join_step num cfg e Finished s = (Finished, s)"

text \<open>
  The handlers of a batch, each with the outcomes of its own calls, and a schedule: the
  list of the handlers' positions in the order in which they take their steps.
\<close>

fun interleave :: "(string \<Rightarrow> jsnum) \<Rightarrow> config \<Rightarrow> nat list \<Rightarrow> (env \<times> join_proc) list \<Rightarrow> state \<Rightarrow> (env \<times> join_proc) list \<times> state" where
  "interleave num cfg [] ps s = (ps, s)"
| "interleave num cfg (k # ks) ps s =
     (if k < length ps then
        (case join_step num cfg (fst (ps ! k)) (snd (ps ! k)) s of
           (p, s') \<Rightarrow> interleave num cfg ks (ps[k := (fst (ps ! k), p)]) s')
      else interleave num cfg ks ps s)"

section \<open>Concrete inputs\<close>

text \<open>
  \<^verbatim>\<open>Number\<close> on decimal integer literals with an optional minus sign. Every other string
  is taken to \<^verbatim>\<open>NaN\<close>, which is what \<^verbatim>\<open>Number\<close> returns for the other strings this theory
  applies it to (names that start with a letter or with \<^verbatim>\<open>@\<close>).
\<close>

definition digit_val :: "char \<Rightarrow> nat option" where
  "digit_val c = (let n = (of_char c :: nat) in if 48 \<le> n \<and> n \<le> 57 then Some (n - 48) else None)"

fun parse_digits :: "string \<Rightarrow> nat \<Rightarrow> nat option" where
  "parse_digits [] acc = Some acc"
| "parse_digits (c # cs) acc =
     (case digit_val c of None \<Rightarrow> None | Some d \<Rightarrow> parse_digits cs (10 * acc + d))"

definition Number_dec :: "string \<Rightarrow> jsnum" where
  "Number_dec s =
     (case s of
        [] \<Rightarrow> Finite 0
      | c # cs \<Rightarrow>
          if c = CHR ''-'' then
            (if cs = [] then NaN
             else case parse_digits cs 0 of None \<Rightarrow> NaN | Some n \<Rightarrow> Finite (- int n))
          else (case parse_digits (c # cs) 0 of None \<Rightarrow> NaN | Some n \<Rightarrow> Finite (int n)))"

text \<open>A bot configured by the public name of its channel, and one configured by its id.\<close>

definition cfg_public :: config where
  "cfg_public = \<lparr>CHANNEL_ID = ''@wallswipe'', ADMIN_ID = 1, INVITES_PER_REWARD = 5, LEADERBOARD_SIZE = 10\<rparr>"

definition cfg_numeric :: config where
  "cfg_numeric = \<lparr>CHANNEL_ID = ''-1001'', ADMIN_ID = 1, INVITES_PER_REWARD = 5, LEADERBOARD_SIZE = 10\<rparr>"

text \<open>
  Environments: every call succeeds; the reward with id 2 cannot be delivered; the
  notification cannot be delivered.
\<close>

definition env_ok :: env where
  "env_ok = \<lparr>createChatInviteLink = Some ''https://t.me/+new'', sendMessage = (\<lambda>c. True),
             sendDocument = (\<lambda>c r. True)\<rparr>"

definition env_fail2 :: env where
  "env_fail2 = \<lparr>createChatInviteLink = Some ''https://t.me/+new'', sendMessage = (\<lambda>c. True),
                sendDocument = (\<lambda>c r. rewardId r \<noteq> ''2'')\<rparr>"

definition env_no_dm :: env where
  "env_no_dm = \<lparr>createChatInviteLink = Some ''https://t.me/+new'', sendMessage = (\<lambda>c. False),
                sendDocument = (\<lambda>c r. True)\<rparr>"

definition alice :: tg_user where
  "alice = \<lparr>tg_id = 10, tg_username = Some ''alice'', first_name = ''Alice''\<rparr>"

definition admin :: tg_user where
  "admin = \<lparr>tg_id = 1, tg_username = Some ''root'', first_name = ''Admin''\<rparr>"

definition zip_doc :: document where
  "zip_doc = \<lparr>mime_type = Some ''application/zip'', file_name = Some ''pack.ZIP'', file_id = ''F1''\<rparr>"

text \<open>User 20 joins the channel through the link that \<open>env_ok\<close> hands out.\<close>

definition join20 :: chat_member_updated where
  "join20 = \<lparr>chat_id = -1001, chat_username = Some ''wallswipe'', old_status = Some ''left'',
             new_status = Some ''member'', new_user_id = 20,
             invite_link = Some ''https://t.me/+new''\<rparr>"

definition tier1 :: reward where
  "tier1 = \<lparr>rewardId = ''1'', fileId = ''F1'', threshold = 5\<rparr>"

definition tier2 :: reward where
  "tier2 = \<lparr>rewardId = ''2'', fileId = ''F2'', threshold = 10\<rparr>"

definition inviter12 :: user where
  "inviter12 = \<lparr>userId = 10, username = Some ''alice'', inviteLink = Some ''https://t.me/+new'',
                 invitedUsers = [101, 102, 103, 104, 105, 106, 107, 108, 109, 110, 111, 112],
                 invitesCount = 12, rewardsClaimed = []\<rparr>"

text \<open>The catalog of the scenarios, tier 2 registered before tier 1.\<close>

definition shop :: state where
  "shop = \<lparr>users = [inviter12], rewards = [tier2, tier1],
           referrals = map (\<lambda>j. \<lparr>joinedUserId = j, inviterUserId = 10, chatId = None\<rparr>)
                         [101, 102, 103, 104, 105, 106, 107, 108, 109, 110, 111, 112],
           pendingRewardUploads = Map.empty\<rparr>"

text \<open>The store after Alice's \<^verbatim>\<open>/start\<close> on an empty database.\<close>

definition after_start :: state where
  "after_start =
     \<lparr>users = [\<lparr>userId = 10, username = Some ''alice'', inviteLink = Some ''https://t.me/+new'',
                 invitedUsers = [], invitesCount = 0, rewardsClaimed = []\<rparr>],
      rewards = [], referrals = [], pendingRewardUploads = Map.empty\<rparr>"

text \<open>The store after user 20 has then joined through Alice's link.\<close>

definition after_join :: state where
  "after_join =
     \<lparr>users = [\<lparr>userId = 10, username = Some ''alice'', inviteLink = Some ''https://t.me/+new'',
                 invitedUsers = [20], invitesCount = 1, rewardsClaimed = []\<rparr>],
      rewards = [],
      referrals = [\<lparr>joinedUserId = 20, inviterUserId = 10, chatId = None\<rparr>],
      pendingRewardUploads = Map.empty\<rparr>"

text \<open>The shop after user 20 has joined and the notification could not be delivered.\<close>

definition shop_joined :: state where
  "shop_joined =
     shop\<lparr>users := [inviter12\<lparr>invitedUsers := invitedUsers inviter12 @ [20], invitesCount := 13\<rparr>],
          referrals := referrals shop @ [\<lparr>joinedUserId = 20, inviterUserId = 10, chatId = None\<rparr>]\<rparr>"

text \<open>User 21 joins through the same link.\<close>

definition join21 :: chat_member_updated where
  "join21 = join20\<lparr>new_user_id := 21\<rparr>"

text \<open>The store after users 20 and 21 joined and their handlers took their steps in turn.\<close>

definition after_race :: state where
  "after_race =
     \<lparr>users = [\<lparr>userId = 10, username = Some ''alice'', inviteLink = Some ''https://t.me/+new'',
                 invitedUsers = [20, 21], invitesCount = 1, rewardsClaimed = []\<rparr>],
      rewards = [],
      referrals = [\<lparr>joinedUserId = 20, inviterUserId = 10, chatId = None\<rparr>,
                   \<lparr>joinedUserId = 21, inviterUserId = 10, chatId = None\<rparr>],
      pendingRewardUploads = Map.empty\<rparr>"

text \<open>The same join without an invite link, and a join of another public chat.\<close>

definition join_no_link :: chat_member_updated where
  "join_no_link = join20\<lparr>invite_link := None\<rparr>"

definition join_elsewhere :: chat_member_updated where
  "join_elsewhere = join20\<lparr>chat_username := Some ''elsewhere''\<rparr>"

text \<open>A join of a chat with another id and no username.\<close>

definition join_other_id :: chat_member_updated where
  "join_other_id = join20\<lparr>chat_id := - 2002, chat_username := None\<rparr>"

text \<open>
  The admin registers a reward and uploads its ZIP: \<^verbatim>\<open>/reward 1 0\<close>, \<^verbatim>\<open>/reward 0\<close> and
  \<^verbatim>\<open>/reward 2\<close>.
\<close>

definition register_1_0 :: "(env \<times> update) list" where
  "register_1_0 =
     [(env_ok, CmdReward (Some admin) [''/reward'', ''1'', ''0'']),
      (env_ok, OnDocument (Some admin) zip_doc)]"

definition register_0 :: "(env \<times> update) list" where
  "register_0 =
     [(env_ok, CmdReward (Some admin) [''/reward'', ''0'']),
      (env_ok, OnDocument (Some admin) zip_doc)]"

definition register_2 :: "(env \<times> update) list" where
  "register_2 =
     [(env_ok, CmdReward (Some admin) [''/reward'', ''2'']),
      (env_ok, OnDocument (Some admin) zip_doc)]"

section \<open>Reading an effect trace\<close>

text \<open>The rewards whose delivery was attempted, in the order of the attempts.\<close>

fun attempted :: "effect list \<Rightarrow> reward list" where
  "attempted [] = []"
| "attempted (SendDocument c r ok # fx) = r # attempted fx"
| "attempted (x # fx) = attempted fx"

text \<open>The writes of user documents.\<close>

fun saves :: "effect list \<Rightarrow> int list" where
  "saves [] = []"
| "saves (UserSave c # fx) = c # saves fx"
| "saves (x # fx) = saves fx"

text \<open>
  The rewards \<^verbatim>\<open>sendDueRewards\<close> sets out to send (its \<^verbatim>\<open>toSend\<close>): the catalog sorted by
  threshold, filtered by \<open>due\<close>.
\<close>

definition due_list :: "user \<Rightarrow> state \<Rightarrow> reward list" where
  "due_list inviter s = filter (due inviter) (sort_key threshold (rewards s))"

section \<open>Relations between stores\<close>

text \<open>A handler edited only the username or the invite link of a profile.\<close>

definition profile_edit :: "user \<Rightarrow> user \<Rightarrow> bool" where
  "profile_edit u u' =
     (userId u' = userId u \<and> invitedUsers u' = invitedUsers u \<and>
      invitesCount u' = invitesCount u \<and> rewardsClaimed u' = rewardsClaimed u)"

text \<open>A profile as \<open>User.create\<close> makes it: nobody invited, nothing claimed.\<close>

definition fresh_profile :: "user \<Rightarrow> bool" where
  "fresh_profile u = (invitedUsers u = [] \<and> invitesCount u = 0 \<and> rewardsClaimed u = [])"

text \<open>The User collection after a command: old documents edited, fresh ones appended.\<close>

definition users_edit :: "user list \<Rightarrow> user list \<Rightarrow> bool" where
  "users_edit xs ys =
     (length xs \<le> length ys \<and> (\<forall>i<length xs. profile_edit (xs ! i) (ys ! i)) \<and>
      (\<forall>i. length xs \<le> i \<and> i < length ys \<longrightarrow> fresh_profile (ys ! i)))"

text \<open>The update passes every guard of the \<^verbatim>\<open>chat_member\<close> handler and the joined user has no
  Referral record: \<open>i\<close> is the position of the inviter the handler resolves, and the insert succeeds.\<close>

definition attributed :: "(string \<Rightarrow> jsnum) \<Rightarrow> config \<Rightarrow> chat_member_updated \<Rightarrow> state \<Rightarrow> nat \<Rightarrow> bool" where
  "attributed num cfg upd s i =
     (\<not> channel_rejected num cfg upd \<and> becomes_member upd \<and> truthy (invite_link upd) \<and>
      findOne (\<lambda>u. inviteLink u = invite_link upd) (users s) = Some i \<and>
      userId (users s ! i) \<noteq> new_user_id upd \<and>
      new_user_id upd \<notin> set (map joinedUserId (referrals s)))"

text \<open>The store after the insert and the save of the inviter's statistics.\<close>

definition credited :: "(string \<Rightarrow> jsnum) \<Rightarrow> config \<Rightarrow> chat_member_updated \<Rightarrow> state \<Rightarrow> nat \<Rightarrow> state" where
  "credited num cfg upd s i =
     save i (credit (new_user_id upd) (users s ! i))
       (s\<lparr>referrals := referrals s @
            [\<lparr>joinedUserId = new_user_id upd, inviterUserId = userId (users s ! i),
              chatId = referral_chatId num cfg\<rparr>]\<rparr>)"

text \<open>The reward ids the \<^verbatim>\<open>chat_member\<close> handler pushes on \<open>rewardsClaimed\<close> after the notification.\<close>

definition join_claims :: "env \<Rightarrow> nat \<Rightarrow> user \<Rightarrow> state \<Rightarrow> string list" where
  "join_claims e i inviter' s2 =
     (if sendMessage e (userId inviter')
      then map rewardId (filter (sendDocument e (userId inviter')) (due_list inviter' s2))
      else [])"

text \<open>A step that touches the User collection only.\<close>

definition user_step :: "state \<Rightarrow> state \<Rightarrow> bool" where
  "user_step s s' =
     (users_edit (users s) (users s') \<and> referrals s' = referrals s \<and> rewards s' = rewards s \<and>
      pendingRewardUploads s' = pendingRewardUploads s)"

text \<open>The cached total agrees with the list.\<close>

definition counted :: "user \<Rightarrow> bool" where
  "counted u = (invitesCount u = int (length (invitedUsers u)))"

text \<open>What holds of every store the bot reaches: one Referral record per joined user, and
  every profile's \<open>invitedUsers\<close> counted and backed by Referral records.\<close>

definition ledger_ok :: "state \<Rightarrow> bool" where
  "ledger_ok s =
     (distinct (map joinedUserId (referrals s)) \<and>
      (\<forall>u \<in> set (users s). counted u \<and>
          set (invitedUsers u) \<subseteq> set (map joinedUserId (referrals s))))"

text \<open>
  A \<^verbatim>\<open>/reward\<close> command whose threshold will be at least 1: the threshold it gives is a
  number that is at least 1, or it gives none (or one that is not a number), the
  configured step is at least 1 and the reward id is a number that is at least 1 or not a
  number at all.
\<close>

definition sane_reward_cmd :: "(string \<Rightarrow> jsnum) \<Rightarrow> config \<Rightarrow> string list \<Rightarrow> bool" where
  "sane_reward_cmd num cfg parts =
     (case (if 2 < length parts then num (parts ! 2) else NaN) of
        Finite t \<Rightarrow> 1 \<le> t
      | NaN \<Rightarrow>
          1 \<le> INVITES_PER_REWARD cfg \<and>
          (case num (parts ! 1) of Finite asNum \<Rightarrow> 1 \<le> asNum | NaN \<Rightarrow> True))"

definition sane_update :: "(string \<Rightarrow> jsnum) \<Rightarrow> config \<Rightarrow> update \<Rightarrow> bool" where
  "sane_update num cfg upd =
     (case upd of CmdReward frm parts \<Rightarrow> sane_reward_cmd num cfg parts | _ \<Rightarrow> True)"

text \<open>Every threshold of the catalog and of the pending uploads is at least 1.\<close>

definition thresholds_ok :: "state \<Rightarrow> bool" where
  "thresholds_ok s =
     ((\<forall>r \<in> set (rewards s). 1 \<le> threshold r) \<and>
      (\<forall>a p. pendingRewardUploads s a = Some p \<longrightarrow> 1 \<le> pending_threshold p))"

section \<open>Progress computation\<close>

lemma progress_next_least_multiple:
  fixes invites step :: int
  assumes pos: "0 < step"
  shows "\<exists>n. progress_next invites step = Finite n \<and> step dvd n \<and> invites < n \<and>
           (\<forall>m. step dvd m \<and> invites < m \<longrightarrow> n \<le> m)"
proof -
  define k where "k = \<lceil>real_of_int (invites + 1) / real_of_int step\<rceil>"
  have n: "progress_next invites step = Finite (k * step)"
    using pos by (simp add: progress_next_def k_def)
  have "real_of_int (invites + 1) / real_of_int step \<le> real_of_int k"
    unfolding k_def by (rule le_of_int_ceiling)
  then have "real_of_int (invites + 1) \<le> real_of_int k * real_of_int step"
    using pos by (simp add: pos_divide_le_eq)
  then have "invites + 1 \<le> k * step"
    by (metis of_int_le_iff of_int_mult)
  then have above: "invites < k * step" by simp
  have least: "k * step \<le> m" if dv: "step dvd m" and gt: "invites < m" for m :: int
  proof -
    obtain j where j: "m = step * j" using dv by (auto simp: dvd_def)
    have "invites + 1 \<le> j * step" using gt j by (simp add: mult.commute)
    then have "real_of_int (invites + 1) \<le> real_of_int j * real_of_int step"
      by (metis of_int_le_iff of_int_mult)
    then have "real_of_int (invites + 1) / real_of_int step \<le> real_of_int j"
      using pos by (simp add: pos_divide_le_eq)
    then have "k \<le> j" unfolding k_def by (simp add: ceiling_le_iff)
    then show ?thesis using pos j by (simp add: mult.commute)
  qed
  show ?thesis using n above least by auto
qed

lemma progress_left_mod:
  fixes invites step :: int
  shows "0 < step \<Longrightarrow> 0 \<le> invites \<Longrightarrow>
    progress_left invites step = Finite (step - invites mod step)"
  by (cases "invites = 0") (simp_all add: progress_left_def signed_modulo_int_def)

lemma progressText_7_5: "progressText 7 5 = Progress 7 (Finite 10) (Finite 3)"
  by (simp add: progressText_def progress_next_def progress_left_def signed_modulo_int_def)

lemma progressText_10_5: "progressText 10 5 = Progress 10 (Finite 15) (Finite 5)"
  by (simp add: progressText_def progress_next_def progress_left_def signed_modulo_int_def)

text \<open>
  Claim C10. \<open>progressText\<close> is a function of the credit count and the step alone. For a
  credit count that is not negative and a positive step, the next threshold it reports is
  the smallest multiple of the step strictly greater than the credit count, and the
  remaining count is the step minus (credit count mod step). With 7 credits and step 5 it
  reports next 10 and 3 to go; with 10 credits and step 5, next 15 and 5 to go.
\<close>

theorem progressText_next_and_remaining:
  fixes invites step :: int
  assumes "0 < step" and "0 \<le> invites"
  shows "(\<exists>n. progressText invites step =
               Progress invites (Finite n) (Finite (step - invites mod step)) \<and>
             step dvd n \<and> invites < n \<and> (\<forall>m. step dvd m \<and> invites < m \<longrightarrow> n \<le> m)) \<and>
         progressText 7 5 = Progress 7 (Finite 10) (Finite 3) \<and>
         progressText 10 5 = Progress 10 (Finite 15) (Finite 5)"
proof -
  obtain n where "progress_next invites step = Finite n" "step dvd n" "invites < n"
      "\<forall>m. step dvd m \<and> invites < m \<longrightarrow> n \<le> m"
    using progress_next_least_multiple [OF assms(1)] by blast
  moreover have "progress_left invites step = Finite (step - invites mod step)"
    using assms by (rule progress_left_mod)
  ultimately have "\<exists>n. progressText invites step =
               Progress invites (Finite n) (Finite (step - invites mod step)) \<and>
             step dvd n \<and> invites < n \<and> (\<forall>m. step dvd m \<and> invites < m \<longrightarrow> n \<le> m)"
    unfolding progressText_def by blast
  then show ?thesis using progressText_7_5 progressText_10_5 by blast
qed

theorem progressText_next_and_remaining_witness:
  "(0::int) < 5 \<and> (0::int) \<le> 12 \<and>
   (\<exists>n. progressText 12 5 = Progress 12 (Finite n) (Finite (5 - 12 mod 5)) \<and>
        5 dvd n \<and> 12 < n \<and> (\<forall>m. 5 dvd m \<and> 12 < m \<longrightarrow> n \<le> m))"
  using progressText_next_and_remaining [of 5 12] by simp

section \<open>Reward dispatch\<close>

lemma attempted_append: "attempted (fx @ gx) = attempted fx @ attempted gx"
  by (induction fx rule: attempted.induct) simp_all

lemma saves_append: "saves (fx @ gx) = saves fx @ saves gx"
  by (induction fx rule: saves.induct) simp_all

lemma send_loop_claimed:
  "fst (send_loop e uid rs c) = c @ map rewardId (filter (sendDocument e uid) rs)"
  by (induction rs arbitrary: c) (simp_all add: split_beta)

lemma send_loop_attempted: "attempted (snd (send_loop e uid rs c)) = rs"
  by (induction rs arbitrary: c) (simp_all add: split_beta)

lemma send_loop_saves: "saves (snd (send_loop e uid rs c)) = []"
  by (induction rs arbitrary: c) (simp_all add: split_beta)

lemma send_loop_logs:
  "r \<in> set rs \<Longrightarrow> \<not> sendDocument e uid r \<Longrightarrow>
     LogFailedReward (rewardId r) \<in> set (snd (send_loop e uid rs c))"
  by (induction rs arbitrary: c) (auto simp: split_beta)

lemma sendDueRewards_eq:
  "sendDueRewards e i inviter s =
     (let r = send_loop e (userId inviter) (due_list inviter s) (rewardsClaimed inviter);
          inviter' = inviter\<lparr>rewardsClaimed := fst r\<rparr>
      in (if due_list inviter s \<noteq> [] then save i inviter' s else s, inviter',
          snd r @ (if due_list inviter s \<noteq> [] then [UserSave (userId inviter)] else [])))"
  by (auto simp: sendDueRewards_def due_list_def Let_def split_beta)

lemma sendDueRewards_attempted:
  "attempted (snd (snd (sendDueRewards e i inviter s))) = due_list inviter s"
  by (simp add: sendDueRewards_eq Let_def attempted_append send_loop_attempted)

lemma sendDueRewards_claimed:
  "rewardsClaimed (fst (snd (sendDueRewards e i inviter s))) =
     rewardsClaimed inviter @
     map rewardId (filter (sendDocument e (userId inviter)) (due_list inviter s))"
  by (simp add: sendDueRewards_eq Let_def send_loop_claimed)

lemma sendDueRewards_rewards: "rewards (fst (sendDueRewards e i inviter s)) = rewards s"
  by (simp add: sendDueRewards_eq Let_def save_def)

lemma sendDueRewards_count:
  "invitesCount (fst (snd (sendDueRewards e i inviter s))) = invitesCount inviter"
  by (simp add: sendDueRewards_eq Let_def)

lemma sendDueRewards_userId:
  "userId (fst (snd (sendDueRewards e i inviter s))) = userId inviter"
  by (simp add: sendDueRewards_eq Let_def)

lemma set_due_list:
  "set (due_list inviter s) =
     {r \<in> set (rewards s). threshold r \<le> invitesCount inviter \<and>
                             rewardId r \<notin> set (rewardsClaimed inviter)}"
  by (auto simp: due_list_def due_def)

lemma sorted_due_list: "sorted (map threshold (due_list inviter s))"
  unfolding due_list_def by (rule sorted_filter) (rule sorted_sort_key)

lemma due_thresholds_perm:
  assumes "mset (rewards s) = mset (rewards s')"
  shows "map threshold (due_list inviter s) = map threshold (due_list inviter s')"
proof -
  have m: "mset (map threshold (due_list inviter s)) = mset (map threshold (due_list inviter s'))"
    using assms by (simp add: due_list_def)
  have "sort (map threshold (due_list inviter s)) = map threshold (due_list inviter s')"
    using m [symmetric] sorted_due_list by (rule properties_for_sort)
  moreover have "sort (map threshold (due_list inviter s)) = map threshold (due_list inviter s)"
    using sorted_due_list by (rule sorted_sort_id)
  ultimately show ?thesis by simp
qed

lemmas scenario_defs =
  sendDueRewards_def shop_def inviter12_def tier1_def tier2_def env_ok_def env_fail2_def
  due_def save_def Let_def

lemma dispatch_both:
  "sendDueRewards env_ok 0 inviter12 shop =
     (shop\<lparr>users := [inviter12\<lparr>rewardsClaimed := [''1'', ''2'']\<rparr>]\<rparr>,
      inviter12\<lparr>rewardsClaimed := [''1'', ''2'']\<rparr>,
      [SendDocument 10 tier1 True, SendDocument 10 tier2 True, UserSave 10])"
  by (simp add: scenario_defs)

lemma dispatch_both_other_order:
  "sendDueRewards env_ok 0 inviter12 (shop\<lparr>rewards := [tier1, tier2]\<rparr>) =
     (shop\<lparr>users := [inviter12\<lparr>rewardsClaimed := [''1'', ''2'']\<rparr>], rewards := [tier1, tier2]\<rparr>,
      inviter12\<lparr>rewardsClaimed := [''1'', ''2'']\<rparr>,
      [SendDocument 10 tier1 True, SendDocument 10 tier2 True, UserSave 10])"
  by (simp add: scenario_defs)

lemma dispatch_tier2_fails:
  "sendDueRewards env_fail2 0 inviter12 shop =
     (shop\<lparr>users := [inviter12\<lparr>rewardsClaimed := [''1'']\<rparr>]\<rparr>,
      inviter12\<lparr>rewardsClaimed := [''1'']\<rparr>,
      [SendDocument 10 tier1 True, SendDocument 10 tier2 False, LogFailedReward ''2'',
       UserSave 10])"
  by (simp add: scenario_defs)

lemma dispatch_retry:
  "sendDueRewards env_ok 0 (inviter12\<lparr>rewardsClaimed := [''1'']\<rparr>)
     (shop\<lparr>users := [inviter12\<lparr>rewardsClaimed := [''1'']\<rparr>]\<rparr>) =
     (shop\<lparr>users := [inviter12\<lparr>rewardsClaimed := [''1'', ''2'']\<rparr>]\<rparr>,
      inviter12\<lparr>rewardsClaimed := [''1'', ''2'']\<rparr>,
      [SendDocument 10 tier2 True, UserSave 10])"
  by (simp add: scenario_defs)

text \<open>
  Claim C2. \<open>sendDueRewards\<close> attempts the delivery of exactly the rewards of the catalog
  whose threshold is at most the inviter's \<open>invitesCount\<close> and whose id is not in the
  inviter's \<open>rewardsClaimed\<close>, in ascending order of threshold, whatever the order in which
  the catalog was registered: two catalogs with the same rewards in different orders give
  the same sequence of thresholds. For an inviter with 12 invites and nothing claimed, and the
  catalog of reward 1 at threshold 5 and reward 2 at threshold 10 (registered in either
  order), both rewards are delivered, reward 1 first, and the claimed list ends as 1, 2.
\<close>

theorem sendDueRewards_due_in_threshold_order:
  "attempted (snd (snd (sendDueRewards e i inviter s))) = due_list inviter s \<and>
   set (due_list inviter s) =
     {r \<in> set (rewards s). threshold r \<le> invitesCount inviter \<and>
                             rewardId r \<notin> set (rewardsClaimed inviter)} \<and>
   sorted (map threshold (due_list inviter s)) \<and>
   (mset (rewards s) = mset (rewards s') \<longrightarrow>
      map threshold (due_list inviter s) = map threshold (due_list inviter s')) \<and>
   sendDueRewards env_ok 0 inviter12 shop =
     (shop\<lparr>users := [inviter12\<lparr>rewardsClaimed := [''1'', ''2'']\<rparr>]\<rparr>,
      inviter12\<lparr>rewardsClaimed := [''1'', ''2'']\<rparr>,
      [SendDocument 10 tier1 True, SendDocument 10 tier2 True, UserSave 10]) \<and>
   sendDueRewards env_ok 0 inviter12 (shop\<lparr>rewards := [tier1, tier2]\<rparr>) =
     (shop\<lparr>users := [inviter12\<lparr>rewardsClaimed := [''1'', ''2'']\<rparr>], rewards := [tier1, tier2]\<rparr>,
      inviter12\<lparr>rewardsClaimed := [''1'', ''2'']\<rparr>,
      [SendDocument 10 tier1 True, SendDocument 10 tier2 True, UserSave 10])"
  using sendDueRewards_attempted [of e i inviter s] set_due_list [of inviter s]
    sorted_due_list [of inviter s] due_thresholds_perm [of s s' inviter]
    dispatch_both dispatch_both_other_order
  by blast

theorem sendDueRewards_due_in_threshold_order_witness:
  "attempted (snd (snd (sendDueRewards env_fail2 0 inviter12 shop))) = [tier1, tier2] \<and>
   set (due_list inviter12 shop) = {tier1, tier2} \<and>
   map threshold (due_list inviter12 shop) = [5, 10]"
proof -
  have d: "due_list inviter12 shop = [tier1, tier2]"
    by (simp add: due_list_def scenario_defs)
  show ?thesis
    using sendDueRewards_due_in_threshold_order [of env_fail2 0 inviter12 shop shop]
    by (simp add: d tier1_def tier2_def insert_commute)
qed

lemma retry_due_list:
  assumes "distinct (map rewardId (rewards s))"
  shows "due_list (fst (snd (sendDueRewards e i inviter s))) (fst (sendDueRewards e i inviter s)) =
         filter (\<lambda>r. \<not> sendDocument e (userId inviter) r) (due_list inviter s)"
proof -
  let ?ok = "sendDocument e (userId inviter)"
  have inj: "inj_on rewardId (set (sort_key threshold (rewards s)))"
    using assms by (simp add: distinct_map)
  have "due (fst (snd (sendDueRewards e i inviter s))) r = (due inviter r \<and> \<not> ?ok r)"
    if "r \<in> set (sort_key threshold (rewards s))" for r
  proof -
    have "rewardId r \<in> rewardId ` {x \<in> set (due_list inviter s). ?ok x} \<longleftrightarrow> r \<in> set (due_list inviter s) \<and> ?ok r"
      using inj that by (auto simp: due_list_def inj_on_def)
    then show ?thesis
      using that by (auto simp: due_def sendDueRewards_claimed sendDueRewards_count due_list_def)
  qed
  then show ?thesis
    unfolding due_list_def sendDueRewards_rewards
    by (auto intro!: filter_cong)
qed

lemma sendDueRewards_stored:
  "i < length (users s) \<Longrightarrow> users s ! i = inviter \<Longrightarrow>
     users (fst (sendDueRewards e i inviter s)) ! i = fst (snd (sendDueRewards e i inviter s))"
  by (auto simp: sendDueRewards_eq Let_def save_def send_loop_claimed)

lemma sendDueRewards_saves:
  "saves (snd (snd (sendDueRewards e i inviter s))) = (if due_list inviter s = [] then [] else [userId inviter])"
  by (simp add: sendDueRewards_eq Let_def saves_append send_loop_saves)

lemma sendDueRewards_logs:
  "r \<in> set (due_list inviter s) \<Longrightarrow> \<not> sendDocument e (userId inviter) r \<Longrightarrow> LogFailedReward (rewardId r) \<in> set (snd (snd (sendDueRewards e i inviter s)))"
  by (simp add: sendDueRewards_eq Let_def send_loop_logs)

lemma sendDueRewards_last:
  "due_list inviter s \<noteq> [] \<Longrightarrow> last (snd (snd (sendDueRewards e i inviter s))) = UserSave (userId inviter)"
  by (simp add: sendDueRewards_eq Let_def)

lemma sendDueRewards_store:
  "fst (sendDueRewards e i inviter s) = (if due_list inviter s = [] then s else save i (fst (snd (sendDueRewards e i inviter s))) s)"
  by (simp add: sendDueRewards_eq Let_def)

text \<open>
  Claim C3. In \<open>sendDueRewards\<close> every due reward is attempted even when an earlier one
  failed, and each failure is logged. The ids of the rewards that were delivered, and only
  those, are appended to \<open>rewardsClaimed\<close>, and the document is written once, as the last
  effect, after all the attempts (not at all when nothing is due). A reward whose delivery
  failed stays unclaimed: a second call on the stored document, with the same
  \<open>invitesCount\<close>, attempts exactly the rewards that failed and appends those it delivers.
  When reward 1 is delivered and reward 2 fails the claimed list is 1; the next call, with
  reward 2 delivered, makes it 1, 2. The catalog has one reward per id (the unique index
  on \<open>rewardId\<close>), and \<open>i\<close> is the position of the inviter's document.
\<close>

theorem sendDueRewards_failures_isolated_and_retried:
  fixes e e' :: env and i :: nat and inviter :: user and s :: state
  defines "r1 \<equiv> sendDueRewards e i inviter s"
  defines "r2 \<equiv> sendDueRewards e' i (users (fst r1) ! i) (fst r1)"
  assumes "i < length (users s)" and "users s ! i = inviter"
    and "distinct (map rewardId (rewards s))"
  shows "attempted (snd (snd r1)) = due_list inviter s \<and>
   (\<forall>r \<in> set (due_list inviter s). \<not> sendDocument e (userId inviter) r \<longrightarrow>
        LogFailedReward (rewardId r) \<in> set (snd (snd r1))) \<and>
   rewardsClaimed (fst (snd r1)) =
     rewardsClaimed inviter @ map rewardId (filter (sendDocument e (userId inviter)) (due_list inviter s)) \<and>
   saves (snd (snd r1)) = (if due_list inviter s = [] then [] else [userId inviter]) \<and>
   (due_list inviter s \<noteq> [] \<longrightarrow> last (snd (snd r1)) = UserSave (userId inviter)) \<and>
   fst r1 = (if due_list inviter s = [] then s else save i (fst (snd r1)) s) \<and>
   users (fst r1) ! i = fst (snd r1) \<and>
   invitesCount (users (fst r1) ! i) = invitesCount inviter \<and>
   attempted (snd (snd r2)) = filter (\<lambda>r. \<not> sendDocument e (userId inviter) r) (due_list inviter s) \<and>
   rewardsClaimed (users (fst r2) ! i) =
     rewardsClaimed (users (fst r1) ! i) @
     map rewardId (filter (sendDocument e' (userId inviter))
        (filter (\<lambda>r. \<not> sendDocument e (userId inviter) r) (due_list inviter s))) \<and>
   rewardsClaimed (users (fst (sendDueRewards env_fail2 0 inviter12 shop)) ! 0) = [''1''] \<and>
   rewardsClaimed (users (fst (sendDueRewards env_ok 0
       (users (fst (sendDueRewards env_fail2 0 inviter12 shop)) ! 0)
       (fst (sendDueRewards env_fail2 0 inviter12 shop)))) ! 0) = [''1'', ''2'']"
proof -
  have st: "users (fst r1) ! i = fst (snd r1)"
    unfolding r1_def using assms(3,4) by (rule sendDueRewards_stored)
  have len: "i < length (users (fst r1))"
    unfolding r1_def using assms(3) by (simp add: sendDueRewards_eq Let_def save_def)
  have dl2: "due_list (users (fst r1) ! i) (fst r1) = filter (\<lambda>r. \<not> sendDocument e (userId inviter) r) (due_list inviter s)"
    unfolding st unfolding r1_def using assms(5) by (rule retry_due_list)
  have uid: "userId (users (fst r1) ! i) = userId inviter"
    using st by (simp add: r1_def sendDueRewards_userId)
  have st2: "users (fst r2) ! i = fst (snd r2)"
    unfolding r2_def using len by (rule sendDueRewards_stored) simp
  have a2: "attempted (snd (snd r2)) = filter (\<lambda>r. \<not> sendDocument e (userId inviter) r) (due_list inviter s)"
    unfolding r2_def by (simp add: sendDueRewards_attempted dl2)
  have c2: "rewardsClaimed (users (fst r2) ! i) =
     rewardsClaimed (users (fst r1) ! i) @
     map rewardId (filter (sendDocument e' (userId inviter))
        (filter (\<lambda>r. \<not> sendDocument e (userId inviter) r) (due_list inviter s)))"
    unfolding st2 unfolding r2_def by (simp only: sendDueRewards_claimed dl2 uid)
  have store: "fst r1 = (if due_list inviter s = [] then s else save i (fst (snd r1)) s)"
    unfolding r1_def by (rule sendDueRewards_store)
  have logs: "\<forall>r \<in> set (due_list inviter s). \<not> sendDocument e (userId inviter) r \<longrightarrow>
        LogFailedReward (rewardId r) \<in> set (snd (snd r1))"
    unfolding r1_def by (simp add: sendDueRewards_logs)
  have rest: "attempted (snd (snd r1)) = due_list inviter s"
    "rewardsClaimed (fst (snd r1)) =
       rewardsClaimed inviter @ map rewardId (filter (sendDocument e (userId inviter)) (due_list inviter s))"
    "saves (snd (snd r1)) = (if due_list inviter s = [] then [] else [userId inviter])"
    "due_list inviter s \<noteq> [] \<longrightarrow> last (snd (snd r1)) = UserSave (userId inviter)"
    "invitesCount (users (fst r1) ! i) = invitesCount inviter"
    unfolding st unfolding r1_def
    by (simp_all add: sendDueRewards_attempted sendDueRewards_claimed sendDueRewards_saves
        sendDueRewards_last sendDueRewards_count)
  have scenario:
    "rewardsClaimed (users (fst (sendDueRewards env_fail2 0 inviter12 shop)) ! 0) = [''1'']"
    "rewardsClaimed (users (fst (sendDueRewards env_ok 0
       (users (fst (sendDueRewards env_fail2 0 inviter12 shop)) ! 0)
       (fst (sendDueRewards env_fail2 0 inviter12 shop)))) ! 0) = [''1'', ''2'']"
    by (simp_all add: dispatch_tier2_fails dispatch_retry)
  show ?thesis
    using rest logs store st a2 c2 scenario by blast
qed
theorem sendDueRewards_failures_isolated_and_retried_witness:
  "0 < length (users shop) \<and> users shop ! 0 = inviter12 \<and>
   distinct (map rewardId (rewards shop)) \<and>
   attempted (snd (snd (sendDueRewards env_fail2 0 inviter12 shop))) = [tier1, tier2] \<and>
   LogFailedReward ''2'' \<in> set (snd (snd (sendDueRewards env_fail2 0 inviter12 shop))) \<and>
   rewardsClaimed (fst (snd (sendDueRewards env_fail2 0 inviter12 shop))) = [''1''] \<and>
   attempted (snd (snd (sendDueRewards env_ok 0
       (users (fst (sendDueRewards env_fail2 0 inviter12 shop)) ! 0)
       (fst (sendDueRewards env_fail2 0 inviter12 shop))))) = [tier2]"
proof -
  have d: "due_list inviter12 shop = [tier1, tier2]"
    by (simp add: due_list_def scenario_defs)
  have h: "0 < length (users shop)" "users shop ! 0 = inviter12"
    "distinct (map rewardId (rewards shop))"
    by (simp_all add: shop_def tier1_def tier2_def)
  have a: "attempted (snd (snd (sendDueRewards env_fail2 0 inviter12 shop))) =
      due_list inviter12 shop"
    by (rule sendDueRewards_failures_isolated_and_retried
          [OF h, of env_fail2 env_ok, THEN conjunct1])
  have b: "sendDueRewards env_ok 0 (inviter12\<lparr>rewardsClaimed := [''1'']\<rparr>)
      (shop\<lparr>users := [inviter12\<lparr>rewardsClaimed := [''1'']\<rparr>]\<rparr>) =
     (shop\<lparr>users := [inviter12\<lparr>rewardsClaimed := [''1'', ''2'']\<rparr>]\<rparr>,
      inviter12\<lparr>rewardsClaimed := [''1'', ''2'']\<rparr>,
      [SendDocument 10 tier2 True, UserSave 10])"
    by (rule dispatch_retry)
  show ?thesis
    using a h by (simp add: d dispatch_tier2_fails b)
qed

section \<open>How a handler changes the store\<close>

lemma users_edit_refl: "users_edit xs xs"
  by (auto simp: users_edit_def profile_edit_def)

lemma profile_edit_trans: "profile_edit u v \<Longrightarrow> profile_edit v w \<Longrightarrow> profile_edit u w"
  by (simp add: profile_edit_def)

lemma fresh_profile_edit: "fresh_profile u \<Longrightarrow> profile_edit u v \<Longrightarrow> fresh_profile v"
  by (simp add: profile_edit_def fresh_profile_def)

lemma users_edit_trans:
  assumes xy: "users_edit xs ys" and yz: "users_edit ys zs"
  shows "users_edit xs zs"
proof -
  have len: "length xs \<le> length ys" "length ys \<le> length zs"
    using xy yz by (simp_all add: users_edit_def)
  have old: "profile_edit (xs ! i) (zs ! i)" if "i < length xs" for i
  proof -
    have "profile_edit (xs ! i) (ys ! i)" using xy that by (simp add: users_edit_def)
    moreover have "profile_edit (ys ! i) (zs ! i)"
      using yz that len by (simp add: users_edit_def)
    ultimately show ?thesis by (rule profile_edit_trans)
  qed
  have new: "fresh_profile (zs ! i)" if "length xs \<le> i" "i < length zs" for i
  proof (cases "i < length ys")
    case True
    then have "fresh_profile (ys ! i)" using xy that by (simp add: users_edit_def)
    moreover have "profile_edit (ys ! i) (zs ! i)" using yz True by (simp add: users_edit_def)
    ultimately show ?thesis by (rule fresh_profile_edit)
  next
    case False
    then show ?thesis using yz that by (simp add: users_edit_def)
  qed
  show ?thesis using len old new by (simp add: users_edit_def)
qed

lemma findOne_Some: "findOne P xs = Some i \<Longrightarrow> i < length xs \<and> P (xs ! i)"
  by (induction xs arbitrary: i) (auto split: if_splits)

lemma findOne_None: "findOne P xs = None \<Longrightarrow> x \<in> set xs \<Longrightarrow> \<not> P x"
  by (induction xs) (auto split: if_splits)

lemma users_edit_update:
  "i < length xs \<Longrightarrow> profile_edit (xs ! i) u \<Longrightarrow> users_edit xs (xs[i := u])"
  by (auto simp: users_edit_def profile_edit_def nth_list_update)

lemma users_edit_append: "fresh_profile u \<Longrightarrow> users_edit xs (xs @ [u])"
  by (auto simp: users_edit_def profile_edit_def nth_append less_Suc_eq_le dest: le_antisym)

lemma ensureUser_shape:
  assumes "ensureUser f s = (s1, i, fx)"
  shows "i < length (users s1) \<and> s1 = s\<lparr>users := users s1\<rparr> \<and> users_edit (users s) (users s1)"
proof (cases "findOne (\<lambda>u. userId u = tg_id f) (users s)")
  case None
  with assms show ?thesis
    by (auto simp: ensureUser_def new_user_def fresh_profile_def intro!: users_edit_append)
next
  case (Some j)
  then have "j < length (users s)" by (auto dest: findOne_Some)
  with Some assms show ?thesis
    by (auto simp: ensureUser_def save_def profile_edit_def users_edit_refl
        intro!: users_edit_update split: if_splits)
qed

lemma getOrCreate_shape:
  assumes "getOrCreateInviteLinkForUser e i s = (s2, l, fx)" and "i < length (users s)"
  shows "s2 = s\<lparr>users := users s2\<rparr> \<and> users_edit (users s) (users s2)"
  using assms
  by (auto simp: getOrCreateInviteLinkForUser_def Let_def save_def profile_edit_def users_edit_refl
      intro!: users_edit_update split: if_splits option.splits)

lemma ensure_then_link:
  assumes "ensureUser f s = (s1, i, fx1)" and "getOrCreateInviteLinkForUser e i s1 = (s2, l, fx2)"
  shows "s2 = s\<lparr>users := users s2\<rparr> \<and> users_edit (users s) (users s2)"
proof -
  have 1: "i < length (users s1)" "s1 = s\<lparr>users := users s1\<rparr>" "users_edit (users s) (users s1)"
    using ensureUser_shape [OF assms(1)] by simp_all
  have 2: "s2 = s1\<lparr>users := users s2\<rparr>" "users_edit (users s1) (users s2)"
    using getOrCreate_shape [OF assms(2) 1(1)] by simp_all
  have "s2 = s\<lparr>users := users s2\<rparr>"
    by (subst 2(1), subst 1(2)) simp
  then show ?thesis using users_edit_trans [OF 1(3) 2(2)] by simp
qed

lemma on_start_shape:
  "on_start cfg e frm s = (s', fx) \<Longrightarrow> s' = s\<lparr>users := users s'\<rparr> \<and> users_edit (users s) (users s')"
  by (cases frm)
     (auto simp: on_start_def users_edit_refl split: prod.splits option.splits
        dest: ensure_then_link)

lemma on_link_shape:
  "on_link e frm s = (s', fx) \<Longrightarrow> s' = s\<lparr>users := users s'\<rparr> \<and> users_edit (users s) (users s')"
  by (cases frm)
     (auto simp: on_link_def users_edit_refl split: prod.splits option.splits
        dest: ensure_then_link)

lemma on_myinvites_shape:
  "on_myinvites cfg frm s = (s', fx) \<Longrightarrow> s' = s\<lparr>users := users s'\<rparr> \<and> users_edit (users s) (users s')"
  by (cases frm)
     (auto simp: on_myinvites_def users_edit_refl Let_def split: prod.splits option.splits
        dest: ensureUser_shape)

lemma on_rewards_shape:
  "on_rewards frm s = (s', fx) \<Longrightarrow> s' = s\<lparr>users := users s'\<rparr> \<and> users_edit (users s) (users s')"
  by (cases frm)
     (auto simp: on_rewards_def users_edit_refl Let_def split: prod.splits option.splits if_splits
        dest: ensureUser_shape)

lemma readonly_shape:
  "fst (on_top cfg s) = s" "fst (on_help s) = s" "fst (on_stats cfg frm s) = s"
  "fst (on_user num cfg frm arg s) = s" "fst (on_broadcast cfg e frm msg s) = s"
  "fst (on_rewardslist cfg frm s) = s"
  by (auto simp: on_top_def on_help_def on_stats_def on_user_def on_broadcast_def
      on_rewardslist_def Let_def split: option.splits prod.splits jsnum.splits)

lemma on_reward_shape:
  "fst (on_reward num cfg frm parts s) = s \<or>
   (\<exists>f. frm = Some f \<and> isAdmin cfg frm \<and> 2 \<le> length parts \<and>
        fst (on_reward num cfg frm parts s) =
          s\<lparr>pendingRewardUploads := (pendingRewardUploads s)(tg_id f \<mapsto>
               \<lparr>pending_rewardId = parts ! 1, pending_threshold = reward_threshold num cfg parts\<rparr>)\<rparr>)"
  by (cases frm) (auto simp: on_reward_def Let_def)

lemma on_document_shape:
  "fst (on_document cfg frm doc s) = s \<or>
   (\<exists>f p. frm = Some f \<and> pendingRewardUploads s (tg_id f) = Some p \<and>
        fst (on_document cfg frm doc s) =
          s\<lparr>rewards := upsert_reward (pending_rewardId p) (file_id doc) (pending_threshold p) (rewards s),
            pendingRewardUploads := (pendingRewardUploads s)(tg_id f := None)\<rparr>)"
  by (cases frm) (auto simp: on_document_def split: option.splits)

lemma on_chat_member_not_attributed:
  "(\<And>i. \<not> attributed num cfg upd s i) \<Longrightarrow> fst (on_chat_member num cfg e upd s) = s"
  by (auto simp: on_chat_member_def attributed_def Referral_create_def Let_def split: option.splits)

lemma on_chat_member_attributed:
  assumes "attributed num cfg upd s i"
  shows "on_chat_member num cfg e upd s =
     (let inviter = users s ! i; inviter' = credit (new_user_id upd) inviter;
          s2 = credited num cfg upd s i;
          fx = [ReferralCreate (new_user_id upd) (userId inviter) True, UserSave (userId inviter)];
          note = MsgNewMember (invitesCount inviter')
      in if sendMessage e (userId inviter)
         then (fst (sendDueRewards e i inviter' s2),
               fx @ [SendMessage (userId inviter) note True] @ snd (snd (sendDueRewards e i inviter' s2)))
         else (s2, fx @ [SendMessage (userId inviter) note False, LogFailedDM]))"
  using assms
  by (auto simp: on_chat_member_def attributed_def credited_def Referral_create_def Let_def split_beta)

lemma attributed_bound: "attributed num cfg upd s i \<Longrightarrow> i < length (users s)"
  by (auto simp: attributed_def dest: findOne_Some)

lemma credited_simps:
  "users (credited num cfg upd s i) = (users s)[i := credit (new_user_id upd) (users s ! i)]"
  "referrals (credited num cfg upd s i) = referrals s @
      [\<lparr>joinedUserId = new_user_id upd, inviterUserId = userId (users s ! i),
        chatId = referral_chatId num cfg\<rparr>]"
  "rewards (credited num cfg upd s i) = rewards s"
  "pendingRewardUploads (credited num cfg upd s i) = pendingRewardUploads s"
  by (simp_all add: credited_def save_def)

lemma credit_simps:
  "userId (credit j u) = userId u" "rewardsClaimed (credit j u) = rewardsClaimed u"
  "username (credit j u) = username u" "inviteLink (credit j u) = inviteLink u"
  "invitedUsers (credit j u) = (if j \<in> set (invitedUsers u) then invitedUsers u else invitedUsers u @ [j])"
  "invitesCount (credit j u) = int (length (invitedUsers (credit j u)))"
  by (simp_all add: credit_def Let_def)

lemma join_final_state:
  assumes "attributed num cfg upd s i"
  shows "fst (on_chat_member num cfg e upd s) =
     save i ((credit (new_user_id upd) (users s ! i))\<lparr>rewardsClaimed := rewardsClaimed (users s ! i) @
               join_claims e i (credit (new_user_id upd) (users s ! i)) (credited num cfg upd s i)\<rparr>)
       (credited num cfg upd s i)"
proof -
  let ?u = "credit (new_user_id upd) (users s ! i)"
  let ?s2 = "credited num cfg upd s i"
  have i: "i < length (users s)" using assms by (rule attributed_bound)
  have "?u\<lparr>rewardsClaimed := rewardsClaimed (users s ! i)\<rparr> = ?u"
    by (simp add: credit_def Let_def)
  then have same: "save i (?u\<lparr>rewardsClaimed := rewardsClaimed (users s ! i) @ []\<rparr>) ?s2 = ?s2"
    by (simp add: save_def credited_def)
  show ?thesis
  proof (cases "sendMessage e (userId (users s ! i))")
    case False
    then show ?thesis
      using same by (simp add: on_chat_member_attributed [OF assms] Let_def join_claims_def credit_simps)
  next
    case True
    show ?thesis
    proof (cases "due_list ?u ?s2 = []")
      case True
      with \<open>sendMessage e (userId (users s ! i))\<close> show ?thesis
        using same
        by (simp add: on_chat_member_attributed [OF assms] Let_def join_claims_def credit_simps
            sendDueRewards_eq)
    next
      case False
      with \<open>sendMessage e (userId (users s ! i))\<close> show ?thesis
        by (simp add: on_chat_member_attributed [OF assms] Let_def join_claims_def credit_simps
            sendDueRewards_eq send_loop_claimed)
    qed
  qed
qed

lemma users_only:
  "s' = s\<lparr>users := ys\<rparr> \<Longrightarrow>
     referrals s' = referrals s \<and> rewards s' = rewards s \<and>
     pendingRewardUploads s' = pendingRewardUploads s"
  by simp

lemma user_stepI: "s' = s\<lparr>users := users s'\<rparr> \<and> users_edit (users s) (users s') \<Longrightarrow> user_step s s'"
  unfolding user_step_def using users_only [where s' = s' and s = s and ys = "users s'"] by blast

lemma user_cmd_steps:
  "user_step s (fst (on_start cfg e frm s))"
  "user_step s (fst (on_link e frm s))"
  "user_step s (fst (on_myinvites cfg frm s))"
  "user_step s (fst (on_rewards frm s))"
  using on_start_shape [of cfg e frm s] on_link_shape [of e frm s]
    on_myinvites_shape [of cfg frm s] on_rewards_shape [of frm s]
  by (simp_all add: user_stepI prod_eq_iff)

lemma user_step_refl: "user_step s s"
  by (simp add: user_step_def users_edit_refl)

lemma handle_update_shape:
  fixes s :: state and num cfg e upd
  defines "s' \<equiv> fst (handle_update num cfg e upd s)"
  shows "(users_edit (users s) (users s') \<and> referrals s' = referrals s) \<or>
   (\<exists>u i c. upd = OnChatMember u \<and> attributed num cfg u s i \<and>
      s' = save i ((credit (new_user_id u) (users s ! i))\<lparr>rewardsClaimed := rewardsClaimed (users s ! i) @ c\<rparr>)
             (credited num cfg u s i))"
proof (cases upd)
  case (OnChatMember u)
  show ?thesis
  proof (cases "\<exists>i. attributed num cfg u s i")
    case True
    then obtain i where "attributed num cfg u s i" ..
    then show ?thesis
      unfolding s'_def OnChatMember using join_final_state by fastforce
  next
    case False
    then have "s' = s" unfolding s'_def OnChatMember
      by (simp add: on_chat_member_not_attributed)
    then show ?thesis by (simp add: users_edit_refl)
  qed
next
  case (CmdReward frm parts)
  then show ?thesis unfolding s'_def
    using on_reward_shape [of num cfg frm parts s] by (auto simp: users_edit_refl)
next
  case (OnDocument frm doc)
  then show ?thesis unfolding s'_def
    using on_document_shape [of cfg frm doc s] by (auto simp: users_edit_refl)
qed (simp_all add: s'_def readonly_shape users_edit_refl user_cmd_steps [unfolded user_step_def])

lemma ledger_ok_init: "ledger_ok init_state"
  by (simp add: ledger_ok_def init_state_def)

lemma users_edit_elem:
  assumes "users_edit xs ys" and "y \<in> set ys"
  shows "fresh_profile y \<or> (\<exists>x \<in> set xs. profile_edit x y)"
proof -
  obtain i where i: "i < length ys" "ys ! i = y"
    using assms(2) by (auto simp: in_set_conv_nth)
  show ?thesis
  proof (cases "i < length xs")
    case True
    then have "profile_edit (xs ! i) y" using assms(1) i by (auto simp: users_edit_def)
    then show ?thesis using True by (auto intro: nth_mem)
  next
    case False
    then show ?thesis using assms(1) i by (auto simp: users_edit_def)
  qed
qed

lemma ledger_ok_step:
  assumes ok: "ledger_ok s"
  shows "ledger_ok (fst (handle_update num cfg e upd s))"
proof -
  let ?s' = "fst (handle_update num cfg e upd s)"
  from handle_update_shape [of s num cfg e upd]
  consider (edit) "users_edit (users s) (users ?s')" "referrals ?s' = referrals s"
    | (join) u i c where "upd = OnChatMember u" "attributed num cfg u s i"
        "?s' = save i ((credit (new_user_id u) (users s ! i))\<lparr>rewardsClaimed := rewardsClaimed (users s ! i) @ c\<rparr>)
             (credited num cfg u s i)"
    by blast
  then show ?thesis
  proof cases
    case edit
    have "counted y \<and> set (invitedUsers y) \<subseteq> set (map joinedUserId (referrals s))"
      if "y \<in> set (users ?s')" for y
      using users_edit_elem [OF edit(1) that] ok
      unfolding ledger_ok_def counted_def fresh_profile_def profile_edit_def
      by (elim disjE bexE conjE) (simp, metis)
    then show ?thesis using ok edit(2) by (simp add: ledger_ok_def)
  next
    case join
    let ?j = "new_user_id u"
    let ?v = "(credit ?j (users s ! i))\<lparr>rewardsClaimed := rewardsClaimed (users s ! i) @ c\<rparr>"
    have i: "i < length (users s)" using join(2) by (rule attributed_bound)
    have new: "?j \<notin> set (map joinedUserId (referrals s))"
      using join(2) by (simp add: attributed_def)
    have us: "users ?s' = (users s)[i := ?v]"
      by (simp add: join(3) save_def credited_simps)
    have rs: "map joinedUserId (referrals ?s') = map joinedUserId (referrals s) @ [?j]"
      by (simp add: join(3) save_def credited_simps)
    have old: "users s ! i \<in> set (users s)" using i by simp
    have v: "counted ?v \<and> set (invitedUsers ?v) \<subseteq> set (map joinedUserId (referrals s) @ [?j])"
      using ok old by (auto simp: ledger_ok_def counted_def credit_simps)
    have "counted y \<and> set (invitedUsers y) \<subseteq> set (map joinedUserId (referrals s) @ [?j])"
      if "y \<in> set (users ?s')" for y
    proof -
      from that have "y = ?v \<or> y \<in> set (users s)"
        unfolding us using set_update_subset_insert [of "users s" i ?v] by auto
      then show ?thesis using v ok by (auto simp: ledger_ok_def)
    qed
    then show ?thesis using ok new unfolding ledger_ok_def rs by simp
  qed
qed

lemma ledger_ok_run: "ledger_ok s \<Longrightarrow> ledger_ok (run num cfg tr s)"
  by (induction tr arbitrary: s) (simp_all add: ledger_ok_step)

lemma claimed_step:
  fixes s :: state and num cfg e upd
  defines "s' \<equiv> fst (handle_update num cfg e upd s)"
  shows "length (users s) \<le> length (users s') \<and>
     (\<forall>i<length (users s). userId (users s' ! i) = userId (users s ! i) \<and>
         set (rewardsClaimed (users s ! i)) \<subseteq> set (rewardsClaimed (users s' ! i)))"
proof -
  from handle_update_shape [of s num cfg e upd]
  consider (edit) "users_edit (users s) (users s')"
    | (join) u i c where "attributed num cfg u s i"
        "s' = save i ((credit (new_user_id u) (users s ! i))\<lparr>rewardsClaimed := rewardsClaimed (users s ! i) @ c\<rparr>)
             (credited num cfg u s i)"
    unfolding s'_def by blast
  then show ?thesis
  proof cases
    case edit
    then show ?thesis by (auto simp: users_edit_def profile_edit_def)
  next
    case join
    have "i < length (users s)" using join(1) by (rule attributed_bound)
    then show ?thesis
      unfolding join(2) by (auto simp: save_def credited_simps credit_simps nth_list_update)
  qed
qed

lemma claimed_run:
  "length (users s) \<le> length (users (run num cfg tr s)) \<and>
     (\<forall>i<length (users s). userId (users (run num cfg tr s) ! i) = userId (users s ! i) \<and>
         set (rewardsClaimed (users s ! i)) \<subseteq> set (rewardsClaimed (users (run num cfg tr s) ! i)))"
proof (induction tr arbitrary: s)
  case Nil
  show ?case by simp
next
  case (Cons eu tr)
  let ?s1 = "fst (handle_update num cfg (fst eu) (snd eu) s)"
  note a = claimed_step [of s num cfg "fst eu" "snd eu"]
  note b = Cons.IH [of ?s1]
  show ?case
  proof (intro conjI allI impI)
    show "length (users s) \<le> length (users (run num cfg (eu # tr) s))"
      using a b by simp
  next
    fix i assume i: "i < length (users s)"
    then have i1: "i < length (users ?s1)" using a by simp
    show "userId (users (run num cfg (eu # tr) s) ! i) = userId (users s ! i)"
      using a b i i1 by simp
    show "set (rewardsClaimed (users s ! i)) \<subseteq> set (rewardsClaimed (users (run num cfg (eu # tr) s) ! i))"
      using a b i i1 by (simp, blast)
  qed
qed

section \<open>Guards\<close>

lemma channel_rejected_iff:
  "channel_rejected num cfg upd =
     (case CHANNEL_CHAT_ID num cfg of
        NumId n \<Rightarrow> n \<noteq> Finite (chat_id upd)
      | StrId c \<Rightarrow> (\<exists>u. at_username upd = Some u \<and> u \<noteq> CHANNEL_ID cfg))"
proof (cases "CHANNEL_CHAT_ID num cfg")
  case (StrId c)
  then have "startsWith c ''@''"
    by (auto simp: CHANNEL_CHAT_ID_def normalizeChatId_def split: if_splits)
  with StrId show ?thesis
    by (cases "at_username upd") (auto simp: channel_rejected_def)
next
  case (NumId n)
  then show ?thesis
    by (cases n) (auto simp: channel_rejected_def)
qed

text \<open>
  Claim C8. When the sender of \<^verbatim>\<open>/stats\<close>, \<^verbatim>\<open>/user\<close>, \<^verbatim>\<open>/broadcast\<close>, \<^verbatim>\<open>/rewardslist\<close>,
  \<^verbatim>\<open>/reward\<close> or of a document is not the configured admin (or the update has no sender),
  the handler leaves the whole state as it was, the collections and the pending uploads
  alike, and has no effect at all: no reply, no message, no write.
\<close>

theorem non_admin_ignored:
  assumes "\<not> isAdmin cfg frm"
  shows "handle_update num cfg e (CmdStats frm) s = (s, []) \<and>
         handle_update num cfg e (CmdUser frm arg) s = (s, []) \<and>
         handle_update num cfg e (CmdBroadcast frm msg) s = (s, []) \<and>
         handle_update num cfg e (CmdRewardsList frm) s = (s, []) \<and>
         handle_update num cfg e (CmdReward frm parts) s = (s, []) \<and>
         handle_update num cfg e (OnDocument frm doc) s = (s, [])"
  using assms
  by (cases frm)
     (simp_all add: on_stats_def on_user_def on_broadcast_def on_rewardslist_def on_reward_def
        on_document_def)

theorem non_admin_ignored_witness:
  "\<not> isAdmin cfg_public (Some alice) \<and>
   handle_update Number_dec cfg_public env_ok (CmdStats (Some alice)) shop = (shop, []) \<and>
   handle_update Number_dec cfg_public env_ok (CmdUser (Some alice) ''@alice'') shop = (shop, []) \<and>
   handle_update Number_dec cfg_public env_ok (CmdBroadcast (Some alice) ''hello'') shop = (shop, []) \<and>
   handle_update Number_dec cfg_public env_ok (CmdRewardsList (Some alice)) shop = (shop, []) \<and>
   handle_update Number_dec cfg_public env_ok (CmdReward (Some alice) [''/reward'', ''3'']) shop = (shop, []) \<and>
   handle_update Number_dec cfg_public env_ok (OnDocument (Some alice) zip_doc) shop = (shop, [])"
proof -
  have h: "\<not> isAdmin cfg_public (Some alice)"
    by (simp add: isAdmin_def cfg_public_def alice_def)
  show ?thesis
    using h non_admin_ignored [OF h, of Number_dec env_ok shop "''@alice''" "''hello''"
        "[''/reward'', ''3'']" zip_doc]
    by blast
qed

text \<open>
  A \<^verbatim>\<open>chat_member\<close> update that the handler drops before the Referral insert leaves the
  whole state as it was and has no effect: this holds when the channel guard rejects the
  update, when the transition is not one from a status other than \<^verbatim>\<open>member\<close> to
  \<^verbatim>\<open>member\<close>, when the update carries no invite link (or an empty one), when no profile
  owns the link, and when the owner of the link is the joined user. The channel guard
  rejects an update exactly when the bot is configured with a numeric id and the chat id
  differs from it, or the bot is configured with a public name and the chat has a username
  that differs from it.
\<close>

lemma discarded_join_changes_nothing:
  "(channel_rejected num cfg upd \<or> \<not> becomes_member upd \<or> \<not> truthy (invite_link upd) \<or>
    findOne (\<lambda>u. inviteLink u = invite_link upd) (users s) = None \<or>
    (\<exists>i. findOne (\<lambda>u. inviteLink u = invite_link upd) (users s) = Some i \<and>
         userId (users s ! i) = new_user_id upd)
    \<longrightarrow> handle_update num cfg e (OnChatMember upd) s = (s, [])) \<and>
   (invite_link upd = None \<longrightarrow> handle_update num cfg e (OnChatMember upd) s = (s, [])) \<and>
   channel_rejected num cfg upd =
     (case CHANNEL_CHAT_ID num cfg of
        NumId n \<Rightarrow> n \<noteq> Finite (chat_id upd)
      | StrId c \<Rightarrow> (\<exists>u. at_username upd = Some u \<and> u \<noteq> CHANNEL_ID cfg))"
  using channel_rejected_iff [of num cfg upd]
  by (auto simp: on_chat_member_def Let_def truthy_def split: option.splits)

section \<open>Concrete runs\<close>

lemma join_no_link_None: "invite_link join_no_link = None"
  by (simp add: join_no_link_def join20_def)

lemma join_elsewhere_rejected: "channel_rejected Number_dec cfg_public join_elsewhere"
  by (simp add: channel_rejected_def CHANNEL_CHAT_ID_def normalizeChatId_def startsWith_def
      cfg_public_def join_elsewhere_def join20_def at_username_def)

lemma join_other_id_rejected: "channel_rejected Number_dec cfg_numeric join_other_id"
  by (simp add: channel_rejected_def CHANNEL_CHAT_ID_def normalizeChatId_def startsWith_def
      cfg_numeric_def join_other_id_def join20_def at_username_def Number_dec_def digit_val_def)

lemma join_other_id_accepted: "\<not> channel_rejected Number_dec cfg_public join_other_id"
  by (simp add: channel_rejected_def CHANNEL_CHAT_ID_def normalizeChatId_def startsWith_def
      cfg_public_def join_other_id_def join20_def at_username_def)

text \<open>
  Under the public-name configuration the guard lets this update of another chat through,
  and the handler then credits the owner of the link.
\<close>

lemma join_other_id_attributed: "attributed Number_dec cfg_public join_other_id shop 0"
  using join_other_id_accepted
  by (simp add: attributed_def becomes_member_def truthy_def join_other_id_def join20_def
      shop_def inviter12_def)

lemma join20_accepted: "\<not> channel_rejected Number_dec cfg_public join20"
  by (simp add: channel_rejected_def CHANNEL_CHAT_ID_def normalizeChatId_def startsWith_def
      cfg_public_def join20_def at_username_def)

lemma join20_attributed_shop: "attributed Number_dec cfg_public join20 shop 0"
  using join20_accepted
  by (simp add: attributed_def becomes_member_def truthy_def join20_def shop_def inviter12_def)

lemma run_start: "run Number_dec cfg_public [(env_ok, CmdStart (Some alice))] init_state = after_start"
  by (simp add: on_start_def ensureUser_def getOrCreateInviteLinkForUser_def init_state_def
      alice_def env_ok_def after_start_def new_user_def save_def truthy_def Let_def)

lemma join20_attributed_start: "attributed Number_dec cfg_public join20 after_start 0"
  using join20_accepted
  by (simp add: attributed_def becomes_member_def truthy_def join20_def after_start_def)

lemma ledger_ok_shop: "ledger_ok shop"
  by (simp add: ledger_ok_def shop_def inviter12_def counted_def)

lemma discarded_join_changes_nothing_at_shop:
  "invite_link join_no_link = None \<and>
   handle_update Number_dec cfg_public env_ok (OnChatMember join_no_link) shop = (shop, []) \<and>
   channel_rejected Number_dec cfg_public join_elsewhere \<and>
   handle_update Number_dec cfg_public env_ok (OnChatMember join_elsewhere) shop = (shop, []) \<and>
   channel_rejected Number_dec cfg_numeric join_other_id \<and>
   handle_update Number_dec cfg_numeric env_ok (OnChatMember join_other_id) shop = (shop, [])"
  using discarded_join_changes_nothing [of Number_dec cfg_public join_no_link shop env_ok]
    discarded_join_changes_nothing [of Number_dec cfg_public join_elsewhere shop env_ok]
    discarded_join_changes_nothing [of Number_dec cfg_numeric join_other_id shop env_ok]
    join_no_link_None join_elsewhere_rejected join_other_id_rejected
  by blast

section \<open>The referral ledger\<close>

lemma distinct_at_most_one:
  "distinct (map f xs) \<Longrightarrow> length (filter (\<lambda>x. f x = j) xs) \<le> 1"
proof (induction xs)
  case Nil
  show ?case by simp
next
  case (Cons x xs)
  show ?case
  proof (cases "f x = j")
    case True
    have "f x \<notin> f ` set xs" using Cons.prems by simp
    then have "\<forall>y \<in> set xs. f y \<noteq> j" using True by blast
    then have "filter (\<lambda>y. f y = j) xs = []"
      by (simp add: filter_empty_conv)
    with True show ?thesis by simp
  next
    case False
    then show ?thesis using Cons by simp
  qed
qed

lemma duplicate_join:
  assumes "new_user_id upd \<in> set (map joinedUserId (referrals s))"
  shows "fst (handle_update num cfg e (OnChatMember upd) s) = s \<and>
     (snd (handle_update num cfg e (OnChatMember upd) s) = [] \<or>
      (\<exists>inv. snd (handle_update num cfg e (OnChatMember upd) s) =
                [ReferralCreate (new_user_id upd) inv False]))"
  using assms
  by (auto simp: on_chat_member_def Referral_create_def Let_def split: option.splits)

lemma first_join:
  fixes e :: env
  assumes ok: "ledger_ok s" and att: "attributed num cfg upd s i"
  defines "s1 \<equiv> fst (handle_update num cfg e (OnChatMember upd) s)"
  shows "invitesCount (users s1 ! i) = invitesCount (users s ! i) + 1"
    and "invitedUsers (users s1 ! i) = invitedUsers (users s ! i) @ [new_user_id upd]"
    and "map joinedUserId (referrals s1) = map joinedUserId (referrals s) @ [new_user_id upd]"
    and "length (users s1) = length (users s)"
proof -
  let ?j = "new_user_id upd"
  have i: "i < length (users s)" using att by (rule attributed_bound)
  then have mem: "users s ! i \<in> set (users s)" by simp
  have fresh: "?j \<notin> set (map joinedUserId (referrals s))"
    using att by (simp add: attributed_def)
  have "set (invitedUsers (users s ! i)) \<subseteq> set (map joinedUserId (referrals s))"
    and cnt: "invitesCount (users s ! i) = int (length (invitedUsers (users s ! i)))"
    using ok mem by (auto simp: ledger_ok_def counted_def)
  then have notin: "?j \<notin> set (invitedUsers (users s ! i))" using fresh by blast
  have s1: "users s1 ! i = (credit ?j (users s ! i))\<lparr>rewardsClaimed := rewardsClaimed (users s ! i) @
               join_claims e i (credit ?j (users s ! i)) (credited num cfg upd s i)\<rparr>"
    unfolding s1_def using i by (simp add: join_final_state [OF att] save_def credited_simps)
  show "invitesCount (users s1 ! i) = invitesCount (users s ! i) + 1"
    using notin cnt by (simp add: s1 credit_simps)
  show "invitedUsers (users s1 ! i) = invitedUsers (users s ! i) @ [?j]"
    using notin by (simp add: s1 credit_simps)
  show "map joinedUserId (referrals s1) = map joinedUserId (referrals s) @ [?j]"
    unfolding s1_def by (simp add: join_final_state [OF att] save_def credited_simps)
  show "length (users s1) = length (users s)"
    unfolding s1_def by (simp add: join_final_state [OF att] save_def credited_simps)
qed

text \<open>
  Claim C1. However many updates the bot has handled since it started on an empty
  database, the Referral collection holds at most one record per joined user. When the
  joined user of a \<^verbatim>\<open>chat_member\<close> update already has a record, whoever its inviter is,
  the handler leaves the whole state as it was; its only possible effect is the failed
  insert. So when a join that is attributed (it passes every guard and the joined user
  has no record yet) is delivered twice, the second delivery changes nothing and the
  inviter's \<open>invitesCount\<close> has grown by exactly one.
\<close>

theorem one_referral_per_joined_user:
  "length (filter (\<lambda>r. joinedUserId r = j) (referrals (run num cfg tr init_state))) \<le> 1 \<and>
   (new_user_id upd \<in> set (map joinedUserId (referrals s)) \<longrightarrow>
      fst (handle_update num cfg e (OnChatMember upd) s) = s \<and>
      (snd (handle_update num cfg e (OnChatMember upd) s) = [] \<or>
       (\<exists>inv. snd (handle_update num cfg e (OnChatMember upd) s) =
                 [ReferralCreate (new_user_id upd) inv False]))) \<and>
   (attributed num cfg upd (run num cfg tr init_state) i \<longrightarrow>
      fst (handle_update num cfg e2 (OnChatMember upd)
             (fst (handle_update num cfg e1 (OnChatMember upd) (run num cfg tr init_state)))) =
        fst (handle_update num cfg e1 (OnChatMember upd) (run num cfg tr init_state)) \<and>
      invitesCount (users (fst (handle_update num cfg e2 (OnChatMember upd)
             (fst (handle_update num cfg e1 (OnChatMember upd) (run num cfg tr init_state))))) ! i) =
        invitesCount (users (run num cfg tr init_state) ! i) + 1)"
proof -
  let ?s = "run num cfg tr init_state"
  have ok: "ledger_ok ?s" by (rule ledger_ok_run) (rule ledger_ok_init)
  then have "distinct (map joinedUserId (referrals ?s))" by (simp add: ledger_ok_def)
  then have one: "length (filter (\<lambda>r. joinedUserId r = j) (referrals ?s)) \<le> 1"
    by (rule distinct_at_most_one)
  have twice: "fst (handle_update num cfg e2 (OnChatMember upd)
             (fst (handle_update num cfg e1 (OnChatMember upd) ?s))) =
        fst (handle_update num cfg e1 (OnChatMember upd) ?s) \<and>
      invitesCount (users (fst (handle_update num cfg e2 (OnChatMember upd)
             (fst (handle_update num cfg e1 (OnChatMember upd) ?s)))) ! i) =
        invitesCount (users ?s ! i) + 1" if att: "attributed num cfg upd ?s i"
  proof -
    let ?s1 = "fst (handle_update num cfg e1 (OnChatMember upd) ?s)"
    have "new_user_id upd \<in> set (map joinedUserId (referrals ?s1))"
      using first_join(3) [OF ok att, of e1] by simp
    then have "fst (handle_update num cfg e2 (OnChatMember upd) ?s1) = ?s1"
      using duplicate_join by blast
    then show ?thesis using first_join(1) [OF ok att, of e1] by simp
  qed
  show ?thesis using one duplicate_join [of upd s num cfg e] twice by blast
qed

theorem one_referral_per_joined_user_witness:
  "attributed Number_dec cfg_public join20
     (run Number_dec cfg_public [(env_ok, CmdStart (Some alice))] init_state) 0 \<and>
   invitesCount (users (run Number_dec cfg_public [(env_ok, CmdStart (Some alice))] init_state) ! 0) = 0 \<and>
   invitesCount (users (fst (handle_update Number_dec cfg_public env_ok (OnChatMember join20)
      (fst (handle_update Number_dec cfg_public env_ok (OnChatMember join20)
         (run Number_dec cfg_public [(env_ok, CmdStart (Some alice))] init_state))))) ! 0) = 1"
proof -
  have a: "attributed Number_dec cfg_public join20
     (run Number_dec cfg_public [(env_ok, CmdStart (Some alice))] init_state) 0"
    using join20_attributed_start by (simp only: run_start)
  have z: "invitesCount (users (run Number_dec cfg_public [(env_ok, CmdStart (Some alice))] init_state) ! 0) = 0"
    by (simp only: run_start) (simp add: after_start_def)
  note t = one_referral_per_joined_user
    [where num = Number_dec and cfg = cfg_public and tr = "[(env_ok, CmdStart (Some alice))]"
       and upd = join20 and i = 0 and ?e1.0 = env_ok and ?e2.0 = env_ok,
     THEN conjunct2, THEN conjunct2, rule_format, OF a, THEN conjunct2]
  show ?thesis using a z t by simp
qed

section \<open>Counters and claimed rewards\<close>

lemma counted_step:
  assumes "\<forall>u \<in> set (users s). counted u"
  shows "\<forall>u \<in> set (users (fst (handle_update num cfg e upd s))). counted u"
proof -
  let ?s' = "fst (handle_update num cfg e upd s)"
  from handle_update_shape [of s num cfg e upd]
  consider (edit) "users_edit (users s) (users ?s')"
    | (join) u i c where "attributed num cfg u s i"
        "?s' = save i ((credit (new_user_id u) (users s ! i))\<lparr>rewardsClaimed := rewardsClaimed (users s ! i) @ c\<rparr>)
             (credited num cfg u s i)"
    by blast
  then show ?thesis
  proof cases
    case edit
    have "counted y" if "y \<in> set (users ?s')" for y
      using users_edit_elem [OF edit that] assms
      unfolding counted_def fresh_profile_def profile_edit_def
      by (elim disjE bexE conjE) (simp, metis)
    then show ?thesis by blast
  next
    case join
    let ?v = "(credit (new_user_id u) (users s ! i))\<lparr>rewardsClaimed := rewardsClaimed (users s ! i) @ c\<rparr>"
    have us: "users ?s' = (users s)[i := ?v]"
      by (simp add: join(2) save_def credited_simps)
    have v: "counted ?v" by (simp add: counted_def credit_simps)
    have "counted y" if "y \<in> set (users ?s')" for y
    proof -
      from that have "y = ?v \<or> y \<in> set (users s)"
        unfolding us using set_update_subset_insert [of "users s" i ?v] by auto
      then show ?thesis using v assms by auto
    qed
    then show ?thesis by blast
  qed
qed

lemma counted_run:
  "\<forall>u \<in> set (users s). counted u \<Longrightarrow> \<forall>u \<in> set (users (run num cfg tr s)). counted u"
proof (induction tr arbitrary: s)
  case Nil
  then show ?case by simp
next
  case (Cons eu tr)
  show ?case using Cons.IH [OF counted_step [OF Cons.prems]] by simp
qed

lemma join20_after_start:
  "handle_update Number_dec cfg_public env_ok (OnChatMember join20) after_start =
     (after_join, [ReferralCreate 20 10 True, UserSave 10, SendMessage 10 (MsgNewMember 1) True])"
  by (simp add: on_chat_member_attributed [OF join20_attributed_start] Let_def)
     (simp add: after_start_def after_join_def join20_def env_ok_def credited_def credit_def
        save_def sendDueRewards_def referral_chatId_def CHANNEL_CHAT_ID_def normalizeChatId_def
        startsWith_def cfg_public_def Let_def)

lemma run_start_join:
  "run Number_dec cfg_public [(env_ok, CmdStart (Some alice)), (env_ok, OnChatMember join20)]
     init_state = after_join"
  using run_start join20_after_start by simp

lemma join20_shop_no_dm:
  "handle_update Number_dec cfg_public env_no_dm (OnChatMember join20) shop =
     (shop_joined,
      [ReferralCreate 20 10 True, UserSave 10, SendMessage 10 (MsgNewMember 13) False, LogFailedDM])"
  by (simp add: on_chat_member_attributed [OF join20_attributed_shop] Let_def)
     (simp add: shop_def shop_joined_def inviter12_def join20_def env_no_dm_def credited_def
        credit_def save_def referral_chatId_def CHANNEL_CHAT_ID_def normalizeChatId_def
        startsWith_def cfg_public_def Let_def)


text \<open>
  When the updates are handled one after the other, every profile's \<open>invitesCount\<close> is the
  length of its \<open>invitedUsers\<close> in every store reached from an empty database, and every
  handler keeps it so. The three operations on a profile in particular: a profile as
  \<open>User.create\<close> makes it has count 0 and an empty list; after an attribution the count is
  set to the length of the list; the dispatch of rewards changes neither.
\<close>

lemma invitesCount_is_length_of_invitedUsers:
  "(\<forall>u \<in> set (users (run num cfg tr init_state)).
       invitesCount u = int (length (invitedUsers u))) \<and>
   ((\<forall>u \<in> set (users s). invitesCount u = int (length (invitedUsers u))) \<longrightarrow>
    (\<forall>u \<in> set (users (fst (handle_update num cfg e upd s))).
       invitesCount u = int (length (invitedUsers u)))) \<and>
   invitesCount (new_user uid uname) = int (length (invitedUsers (new_user uid uname))) \<and>
   invitesCount (credit j inviter) = int (length (invitedUsers (credit j inviter))) \<and>
   invitesCount (fst (snd (sendDueRewards e i inviter s))) = invitesCount inviter \<and>
   invitedUsers (fst (snd (sendDueRewards e i inviter s))) = invitedUsers inviter"
proof -
  have "\<forall>u \<in> set (users init_state). counted u" by (simp add: init_state_def)
  then have a: "\<forall>u \<in> set (users (run num cfg tr init_state)). counted u"
    by (rule counted_run)
  have b: "invitedUsers (fst (snd (sendDueRewards e i inviter s))) = invitedUsers inviter"
    by (simp add: sendDueRewards_eq Let_def)
  show ?thesis
    using a counted_step [of s num cfg e upd] b
    by (simp add: counted_def new_user_def credit_simps sendDueRewards_count)
qed

lemma invitesCount_is_length_of_invitedUsers_after_join:
  "hd (users (run Number_dec cfg_public
      [(env_ok, CmdStart (Some alice)), (env_ok, OnChatMember join20)] init_state))
     \<in> set (users (run Number_dec cfg_public
      [(env_ok, CmdStart (Some alice)), (env_ok, OnChatMember join20)] init_state)) \<and>
   invitedUsers (hd (users (run Number_dec cfg_public
      [(env_ok, CmdStart (Some alice)), (env_ok, OnChatMember join20)] init_state))) = [20] \<and>
   invitesCount (hd (users (run Number_dec cfg_public
      [(env_ok, CmdStart (Some alice)), (env_ok, OnChatMember join20)] init_state))) = 1"
proof -
  let ?s = "run Number_dec cfg_public
      [(env_ok, CmdStart (Some alice)), (env_ok, OnChatMember join20)] init_state"
  have m: "hd (users ?s) \<in> set (users ?s)"
    by (simp only: run_start_join) (simp add: after_join_def)
  have l: "invitedUsers (hd (users ?s)) = [20]"
    by (simp only: run_start_join) (simp add: after_join_def)
  have "invitesCount (hd (users ?s)) = int (length (invitedUsers (hd (users ?s))))"
    using invitesCount_is_length_of_invitedUsers [THEN conjunct1, rule_format, OF m] .
  then show ?thesis using m l by simp
qed

lemma join20_shop_fail2:
  "fst (handle_update Number_dec cfg_public env_fail2 (OnChatMember join20) shop) =
     shop_joined\<lparr>users := [inviter12\<lparr>invitedUsers := invitedUsers inviter12 @ [20],
                      invitesCount := 13, rewardsClaimed := [''1'']\<rparr>]\<rparr>"
  by (simp add: on_chat_member_attributed [OF join20_attributed_shop] Let_def)
     (simp add: shop_def shop_joined_def inviter12_def join20_def env_fail2_def credited_def
        credit_def save_def referral_chatId_def CHANNEL_CHAT_ID_def normalizeChatId_def
        startsWith_def cfg_public_def sendDueRewards_def due_def tier1_def tier2_def Let_def)

text \<open>
  Claim C6. No handler removes an entry of a profile's \<open>rewardsClaimed\<close>: across one
  update, and so across any sequence of updates from any store, the profile at each
  position keeps its \<open>userId\<close> and its claimed rewards are a superset of what they were
  (profiles are never deleted, so the collection does not shrink either).
\<close>

theorem rewardsClaimed_never_shrinks:
  "length (users s) \<le> length (users (run num cfg tr s)) \<and>
   (\<forall>i<length (users s).
      userId (users (run num cfg tr s) ! i) = userId (users s ! i) \<and>
      set (rewardsClaimed (users s ! i)) \<subseteq> set (rewardsClaimed (users (run num cfg tr s) ! i))) \<and>
   length (users s) \<le> length (users (fst (handle_update num cfg e upd s))) \<and>
   (\<forall>i<length (users s).
      userId (users (fst (handle_update num cfg e upd s)) ! i) = userId (users s ! i) \<and>
      set (rewardsClaimed (users s ! i))
        \<subseteq> set (rewardsClaimed (users (fst (handle_update num cfg e upd s)) ! i)))"
  using claimed_run [of s num cfg tr] claimed_step [of s num cfg e upd] by blast

theorem rewardsClaimed_never_shrinks_witness:
  "(0::nat) < length (users shop) \<and>
   rewardsClaimed (users shop ! 0) = [] \<and>
   rewardsClaimed (users (run Number_dec cfg_public [(env_fail2, OnChatMember join20)] shop) ! 0) = [''1''] \<and>
   userId (users (run Number_dec cfg_public [(env_fail2, OnChatMember join20)] shop) ! 0) = userId (users shop ! 0)"
proof -
  have l: "(0::nat) < length (users shop)" by (simp add: shop_def)
  have a: "userId (users (run Number_dec cfg_public [(env_fail2, OnChatMember join20)] shop) ! 0) = userId (users shop ! 0)"
    using rewardsClaimed_never_shrinks [where s = shop and num = Number_dec and cfg = cfg_public
        and tr = "[(env_fail2, OnChatMember join20)]", THEN conjunct2, THEN conjunct1, rule_format, OF l]
    by blast
  have r: "run Number_dec cfg_public [(env_fail2, OnChatMember join20)] shop =
      fst (handle_update Number_dec cfg_public env_fail2 (OnChatMember join20) shop)"
    by simp
  have c: "rewardsClaimed (users (run Number_dec cfg_public [(env_fail2, OnChatMember join20)] shop) ! 0) = [''1'']"
    unfolding r join20_shop_fail2 by simp
  have z: "rewardsClaimed (users shop ! 0) = []"
    by (simp add: shop_def inviter12_def)
  show ?thesis using l a c z by blast
qed

section \<open>Attribution\<close>

lemma due_list_shop_joined: "due_list (users shop_joined ! 0) shop_joined = [tier1, tier2]"
  by (simp add: due_list_def shop_joined_def shop_def inviter12_def due_def tier1_def tier2_def)

text \<open>
  Claim C4, as stated, fails: the dispatch of rewards is not invoked after every successful
  insert. The handler sends the notification first and calls \<open>sendDueRewards\<close> in the same
  \<^verbatim>\<open>try\<close> block after it, so a notification that cannot be delivered skips the dispatch.
  Here user 20 joins through Alice's link, the insert succeeds and the count of 13 is
  saved, rewards 1 and 2 are due, the notification fails, and no delivery is attempted.
\<close>

theorem dispatch_skipped_when_notification_fails:
  "attributed Number_dec cfg_public join20 shop 0 \<and>
   handle_update Number_dec cfg_public env_no_dm (OnChatMember join20) shop =
     (shop_joined,
      [ReferralCreate 20 10 True, UserSave 10, SendMessage 10 (MsgNewMember 13) False, LogFailedDM]) \<and>
   due_list (users shop_joined ! 0) shop_joined = [tier1, tier2] \<and>
   attempted (snd (handle_update Number_dec cfg_public env_no_dm (OnChatMember join20) shop)) = [] \<and>
   attempted (snd (handle_update Number_dec cfg_public env_no_dm (OnChatMember join20) shop))
     \<noteq> due_list (users shop_joined ! 0) shop_joined"
  using join20_attributed_shop due_list_shop_joined
  by (simp only: join20_shop_no_dm) simp

text \<open>
  Claim C4, amended. On a successful Referral insert the joined user is added to the
  inviter's \<open>invitedUsers\<close> (unless already there), \<open>invitesCount\<close> is set to the length of
  the list and the profile is saved; then the notification is sent to the inviter and,
  when it was delivered, \<open>sendDueRewards\<close> is invoked on the saved profile. A notification
  that fails is logged and the dispatch is skipped; a reward delivery that fails is logged.
  In every case the Referral record and the saved \<open>invitedUsers\<close> and \<open>invitesCount\<close> are
  still in the resulting store.
\<close>

theorem attribution_then_notification_then_dispatch:
  fixes num cfg upd s i e
  defines "inviter \<equiv> users s ! i"
  defines "inviter' \<equiv> credit (new_user_id upd) (users s ! i)"
  defines "s2 \<equiv> credited num cfg upd s i"
  defines "result \<equiv> handle_update num cfg e (OnChatMember upd) s"
  assumes att: "attributed num cfg upd s i"
  shows
    "invitedUsers inviter' =
       (if new_user_id upd \<in> set (invitedUsers inviter) then invitedUsers inviter
        else invitedUsers inviter @ [new_user_id upd]) \<and>
     invitesCount inviter' = int (length (invitedUsers inviter')) \<and>
     users s2 = (users s)[i := inviter'] \<and>
     referrals s2 = referrals s @
       [\<lparr>joinedUserId = new_user_id upd, inviterUserId = userId inviter,
         chatId = referral_chatId num cfg\<rparr>] \<and>
     result =
       (if sendMessage e (userId inviter)
        then (fst (sendDueRewards e i inviter' s2),
              [ReferralCreate (new_user_id upd) (userId inviter) True, UserSave (userId inviter),
               SendMessage (userId inviter) (MsgNewMember (invitesCount inviter')) True] @
              snd (snd (sendDueRewards e i inviter' s2)))
        else (s2,
              [ReferralCreate (new_user_id upd) (userId inviter) True, UserSave (userId inviter),
               SendMessage (userId inviter) (MsgNewMember (invitesCount inviter')) False,
               LogFailedDM])) \<and>
     referrals (fst result) = referrals s2 \<and>
     invitedUsers (users (fst result) ! i) = invitedUsers inviter' \<and>
     invitesCount (users (fst result) ! i) = invitesCount inviter' \<and>
     (\<forall>r \<in> set (due_list inviter' s2).
        sendMessage e (userId inviter) \<and> \<not> sendDocument e (userId inviter) r \<longrightarrow>
        LogFailedReward (rewardId r) \<in> set (snd result))"
proof -
  have i: "i < length (users s)" using att by (rule attributed_bound)
  have res: "result =
       (if sendMessage e (userId inviter)
        then (fst (sendDueRewards e i inviter' s2),
              [ReferralCreate (new_user_id upd) (userId inviter) True, UserSave (userId inviter),
               SendMessage (userId inviter) (MsgNewMember (invitesCount inviter')) True] @
              snd (snd (sendDueRewards e i inviter' s2)))
        else (s2,
              [ReferralCreate (new_user_id upd) (userId inviter) True, UserSave (userId inviter),
               SendMessage (userId inviter) (MsgNewMember (invitesCount inviter')) False,
               LogFailedDM]))"
    unfolding result_def inviter_def inviter'_def s2_def
    by (simp add: on_chat_member_attributed [OF att] Let_def)
  have fin: "fst result = save i (inviter'\<lparr>rewardsClaimed := rewardsClaimed inviter @
               join_claims e i inviter' s2\<rparr>) s2"
    unfolding result_def inviter_def inviter'_def s2_def
    using join_final_state [OF att, of e] by simp
  have keep: "referrals (fst result) = referrals s2"
    "invitedUsers (users (fst result) ! i) = invitedUsers inviter'"
    "invitesCount (users (fst result) ! i) = invitesCount inviter'"
    using i unfolding fin by (simp_all add: save_def s2_def credited_simps)
  have logs: "\<forall>r \<in> set (due_list inviter' s2).
        sendMessage e (userId inviter) \<and> \<not> sendDocument e (userId inviter) r \<longrightarrow>
        LogFailedReward (rewardId r) \<in> set (snd result)"
    using sendDueRewards_logs [of _ inviter' s2 e i]
    by (auto simp: res inviter'_def inviter_def credit_simps)
  have first: "invitedUsers inviter' =
       (if new_user_id upd \<in> set (invitedUsers inviter) then invitedUsers inviter
        else invitedUsers inviter @ [new_user_id upd])"
    "invitesCount inviter' = int (length (invitedUsers inviter'))"
    "users s2 = (users s)[i := inviter']"
    "referrals s2 = referrals s @
       [\<lparr>joinedUserId = new_user_id upd, inviterUserId = userId inviter,
         chatId = referral_chatId num cfg\<rparr>]"
    unfolding inviter'_def inviter_def s2_def
    by (simp_all add: credit_simps(5) credit_simps(6) credited_simps)
  show ?thesis using first res keep logs by blast
qed

theorem attribution_then_notification_then_dispatch_witness:
  "attributed Number_dec cfg_public join20 shop 0 \<and>
   invitesCount (users (fst (handle_update Number_dec cfg_public env_ok (OnChatMember join20) shop)) ! 0) = 13 \<and>
   invitedUsers (users (fst (handle_update Number_dec cfg_public env_ok (OnChatMember join20) shop)) ! 0) =
     [101, 102, 103, 104, 105, 106, 107, 108, 109, 110, 111, 112, 20]"
proof -
  note t = attribution_then_notification_then_dispatch [OF join20_attributed_shop, of env_ok]
  have a: "invitesCount (users (fst (handle_update Number_dec cfg_public env_ok (OnChatMember join20) shop)) ! 0) =
      invitesCount (credit (new_user_id join20) (users shop ! 0))"
    using t by blast
  have b: "invitedUsers (users (fst (handle_update Number_dec cfg_public env_ok (OnChatMember join20) shop)) ! 0) =
      invitedUsers (credit (new_user_id join20) (users shop ! 0))"
    using t by blast
  have c: "credit (new_user_id join20) (users shop ! 0) =
      inviter12\<lparr>invitedUsers := [101, 102, 103, 104, 105, 106, 107, 108, 109, 110, 111, 112, 20],
                invitesCount := 13\<rparr>"
    by (simp add: credit_def shop_def inviter12_def join20_def)
  show ?thesis using join20_attributed_shop unfolding a b c by simp
qed

section \<open>Reward registration\<close>

lemma catalog_frame:
  assumes "\<And>frm parts. upd \<noteq> CmdReward frm parts" and "\<And>frm doc. upd \<noteq> OnDocument frm doc"
  shows "rewards (fst (handle_update num cfg e upd s)) = rewards s \<and>
         pendingRewardUploads (fst (handle_update num cfg e upd s)) = pendingRewardUploads s"
proof (cases upd)
  case (OnChatMember u)
  show ?thesis
  proof (cases "\<exists>i. attributed num cfg u s i")
    case True
    then obtain i where "attributed num cfg u s i" ..
    then show ?thesis
      unfolding OnChatMember by (simp add: join_final_state save_def credited_simps)
  next
    case False
    then show ?thesis unfolding OnChatMember
      by (simp add: on_chat_member_not_attributed)
  qed
qed (insert assms, simp_all add: readonly_shape user_cmd_steps [unfolded user_step_def])

lemma sane_reward_threshold:
  assumes "sane_reward_cmd num cfg parts"
  shows "1 \<le> reward_threshold num cfg parts"
proof (cases "if 2 < length parts then num (parts ! 2) else NaN")
  case (Finite t)
  then show ?thesis using assms by (simp add: sane_reward_cmd_def reward_threshold_def)
next
  case NaN
  show ?thesis
  proof (cases "num (parts ! 1)")
    case (Finite asNum)
    then have "1 \<le> asNum" "1 \<le> INVITES_PER_REWARD cfg"
      using assms NaN by (simp_all add: sane_reward_cmd_def)
    then have "1 * 1 \<le> asNum * INVITES_PER_REWARD cfg"
      by (intro mult_mono) simp_all
    then show ?thesis using NaN Finite by (simp add: reward_threshold_def)
  next
    case NaN': NaN
    then show ?thesis using assms NaN by (simp add: sane_reward_cmd_def reward_threshold_def)
  qed
qed

lemma set_upsert_reward:
  "set (upsert_reward rid fid thr rs) \<subseteq> insert \<lparr>rewardId = rid, fileId = fid, threshold = thr\<rparr> (set rs)"
proof (cases "findOne (\<lambda>r. rewardId r = rid) rs")
  case None
  then show ?thesis by (auto simp: upsert_reward_def)
next
  case (Some i)
  have eq: "(rs ! i)\<lparr>rewardId := rid, fileId := fid, threshold := thr\<rparr> =
      \<lparr>rewardId = rid, fileId = fid, threshold = thr\<rparr>"
    by simp
  show ?thesis
    unfolding upsert_reward_def Some option.case eq
    by (rule set_update_subset_insert)
qed

lemma thresholds_ok_step:
  assumes ok: "thresholds_ok s" and sane: "sane_update num cfg upd"
  shows "thresholds_ok (fst (handle_update num cfg e upd s))"
proof -
  consider (reward) frm parts where "upd = CmdReward frm parts"
    | (doc) frm doc where "upd = OnDocument frm doc"
    | (other) "\<And>frm parts. upd \<noteq> CmdReward frm parts" "\<And>frm doc. upd \<noteq> OnDocument frm doc"
    by blast
  then show ?thesis
  proof cases
    case reward
    then have "1 \<le> reward_threshold num cfg parts"
      using sane by (simp add: sane_update_def sane_reward_threshold)
    then show ?thesis
      using ok on_reward_shape [of num cfg frm parts s] unfolding reward
      by (auto simp: thresholds_ok_def split: if_splits)
  next
    case doc
    show ?thesis
      using ok on_document_shape [of cfg frm doc s] set_upsert_reward unfolding doc
      by (fastforce simp: thresholds_ok_def)
  next
    case other
    then show ?thesis
      using ok catalog_frame [of upd num cfg e s] by (simp add: thresholds_ok_def)
  qed
qed

lemma thresholds_ok_run:
  assumes "thresholds_ok s" and "\<forall>eu \<in> set tr. sane_update num cfg (snd eu)"
  shows "thresholds_ok (run num cfg tr s)"
  using assms
proof (induction tr arbitrary: s)
  case Nil
  then show ?case by simp
next
  case (Cons eu tr)
  have "thresholds_ok (fst (handle_update num cfg (fst eu) (snd eu) s))"
    using Cons.prems by (simp add: thresholds_ok_step)
  then show ?case using Cons.IH Cons.prems by simp
qed

lemma run_register_1_0:
  "rewards (run Number_dec cfg_public register_1_0 init_state) =
     [\<lparr>rewardId = ''1'', fileId = ''F1'', threshold = 0\<rparr>]"
  by (simp add: register_1_0_def on_reward_def on_document_def isAdmin_def admin_def cfg_public_def
      init_state_def reward_threshold_def Number_dec_def digit_val_def isZip_def zip_doc_def
      upsert_reward_def includes_str.simps Let_def)

lemma run_register_0:
  "rewards (run Number_dec cfg_public register_0 init_state) =
     [\<lparr>rewardId = ''0'', fileId = ''F1'', threshold = 0\<rparr>]"
  by (simp add: register_0_def on_reward_def on_document_def isAdmin_def admin_def cfg_public_def
      init_state_def reward_threshold_def Number_dec_def digit_val_def isZip_def zip_doc_def
      upsert_reward_def Let_def)

lemma run_register_2:
  "rewards (run Number_dec cfg_public register_2 init_state) =
     [\<lparr>rewardId = ''2'', fileId = ''F1'', threshold = 10\<rparr>]"
  by (simp add: register_2_def on_reward_def on_document_def isAdmin_def admin_def cfg_public_def
      init_state_def reward_threshold_def Number_dec_def digit_val_def isZip_def zip_doc_def
      upsert_reward_def Let_def)

text \<open>
  Claim C9, as stated, fails: the registration flow stores whatever number the command
  gives or the default yields, without a check. After \<^verbatim>\<open>/reward 1 0\<close> and the upload of a
  ZIP the catalog holds reward 1 with threshold 0 (given with the command); after
  \<^verbatim>\<open>/reward 0\<close> and the upload it holds reward 0 with threshold 0 (the default, 0 times the
  step of 5).
\<close>

theorem threshold_below_one_is_stored:
  "rewards (run Number_dec cfg_public register_1_0 init_state) =
     [\<lparr>rewardId = ''1'', fileId = ''F1'', threshold = 0\<rparr>] \<and>
   rewards (run Number_dec cfg_public register_0 init_state) =
     [\<lparr>rewardId = ''0'', fileId = ''F1'', threshold = 0\<rparr>] \<and>
   \<not> 1 \<le> threshold (hd (rewards (run Number_dec cfg_public register_1_0 init_state))) \<and>
   \<not> 1 \<le> threshold (hd (rewards (run Number_dec cfg_public register_0 init_state)))"
  by (simp add: run_register_1_0 run_register_0)

text \<open>
  Claim C9, amended. When every \<^verbatim>\<open>/reward\<close> command states a threshold of at least 1, or
  states none (or one that is not a number) while the configured step is at least 1 and
  the reward id is a number of at least 1 or not a number at all, every reward the
  registration flow has stored since the bot started on an empty database has a threshold
  of at least 1. Thresholds are integers in this model.
\<close>

theorem stored_threshold_at_least_one:
  assumes "\<forall>eu \<in> set tr. sane_update num cfg (snd eu)"
  shows "\<forall>r \<in> set (rewards (run num cfg tr init_state)). 1 \<le> threshold r"
proof -
  have "thresholds_ok init_state" by (simp add: thresholds_ok_def init_state_def)
  then have "thresholds_ok (run num cfg tr init_state)"
    using assms by (rule thresholds_ok_run)
  then show ?thesis by (simp add: thresholds_ok_def)
qed

theorem stored_threshold_at_least_one_witness:
  "sane_update Number_dec cfg_public (snd (register_2 ! 0)) \<and>
   sane_update Number_dec cfg_public (snd (register_2 ! 1)) \<and>
   length register_2 = 2 \<and>
   rewards (run Number_dec cfg_public register_2 init_state) =
     [\<lparr>rewardId = ''2'', fileId = ''F1'', threshold = 10\<rparr>] \<and>
   1 \<le> threshold (hd (rewards (run Number_dec cfg_public register_2 init_state)))"
proof -
  have s: "sane_update Number_dec cfg_public (snd (register_2 ! 0))"
    "sane_update Number_dec cfg_public (snd (register_2 ! 1))" "length register_2 = 2"
    by (simp_all add: register_2_def sane_update_def sane_reward_cmd_def Number_dec_def
        digit_val_def cfg_public_def)
  then have h: "\<forall>eu \<in> set register_2. sane_update Number_dec cfg_public (snd eu)"
    by (simp add: register_2_def)
  have m: "hd (rewards (run Number_dec cfg_public register_2 init_state))
      \<in> set (rewards (run Number_dec cfg_public register_2 init_state))"
    by (simp add: run_register_2)
  have "1 \<le> threshold (hd (rewards (run Number_dec cfg_public register_2 init_state)))"
    using stored_threshold_at_least_one [OF h, rule_format, OF m] .
  then show ?thesis using s run_register_2 by simp
qed

section \<open>A join of a chat without a username\<close>

lemma join_other_id_attributed_start: "attributed Number_dec cfg_public join_other_id after_start 0"
  using join_other_id_accepted
  by (simp add: attributed_def becomes_member_def truthy_def join_other_id_def join20_def
      after_start_def)

lemma join_other_id_after_start:
  "handle_update Number_dec cfg_public env_ok (OnChatMember join_other_id) after_start =
     (after_join, [ReferralCreate 20 10 True, UserSave 10, SendMessage 10 (MsgNewMember 1) True])"
  by (simp add: on_chat_member_attributed [OF join_other_id_attributed_start] Let_def)
     (simp add: after_start_def after_join_def join_other_id_def join20_def env_ok_def
        credited_def credit_def save_def sendDueRewards_def referral_chatId_def
        CHANNEL_CHAT_ID_def normalizeChatId_def startsWith_def cfg_public_def Let_def)

text \<open>
  Claim C7. The code does not drop every update whose channel is not the configured one.
  The bot is configured with the public name \<^verbatim>\<open>@wallswipe\<close>; the update comes from the chat
  with id -2002, which has no username, and carries Alice's invite link. In the channel
  guard the chat id is then compared with itself (\<^verbatim>\<open>chatId !== chatId\<close>), the guard is
  passed over, and the handler inserts a Referral record for user 20, saves Alice's
  profile with one invite and notifies her, where the claim has the update dropped with
  no record and no change of a profile. The comment in the guard says that the update is
  accepted if the username matches. Every update that the handler does drop changes
  nothing (\<open>discarded_join_changes_nothing\<close>).
\<close>

theorem join_of_chat_without_username_is_credited:
  "CHANNEL_CHAT_ID Number_dec cfg_public = StrId ''@wallswipe'' \<and>
   chat_id join_other_id = - 2002 \<and> chat_username join_other_id = None \<and>
   handle_update Number_dec cfg_public env_ok (OnChatMember join_other_id) after_start =
     (after_join, [ReferralCreate 20 10 True, UserSave 10, SendMessage 10 (MsgNewMember 1) True]) \<and>
   referrals after_start = [] \<and>
   referrals after_join = [\<lparr>joinedUserId = 20, inviterUserId = 10, chatId = None\<rparr>] \<and>
   invitedUsers (users after_start ! 0) = [] \<and> invitedUsers (users after_join ! 0) = [20]"
  using join_other_id_after_start
  by (simp add: CHANNEL_CHAT_ID_def normalizeChatId_def startsWith_def cfg_public_def
      join_other_id_def join20_def after_start_def after_join_def)

section \<open>Joins handled together\<close>

lemma save_changes_alone:
  assumes "i < length (users s)" and "users s ! i = loaded"
    and "invitedUsers doc = invitedUsers loaded @ xs"
    and "rewardsClaimed doc = rewardsClaimed loaded @ ys"
    and "userId doc = userId loaded" "username doc = username loaded"
      "inviteLink doc = inviteLink loaded"
  shows "save_changes i loaded doc s = save i doc s"
proof -
  have "loaded
      \<lparr>invitedUsers := invitedUsers loaded @ drop (length (invitedUsers loaded)) (invitedUsers doc),
       invitesCount := (if invitesCount doc \<noteq> invitesCount loaded then invitesCount doc
                        else invitesCount loaded),
       rewardsClaimed :=
         rewardsClaimed loaded @ drop (length (rewardsClaimed loaded)) (rewardsClaimed doc)\<rparr>
      = doc"
    by (rule user.equality) (use assms in simp_all)
  then show ?thesis using assms(2)
    by (simp add: save_changes_def save_def Let_def)
qed

text \<open>
  A handler that takes its six steps with no other handler in between leaves the store
  that \<open>on_chat_member\<close> computes: the two descriptions of the handler agree.
\<close>

lemma join_alone_is_on_chat_member:
  "snd (interleave num cfg [0, 0, 0, 0, 0, 0] [(e, Arrived upd)] s) =
     fst (on_chat_member num cfg e upd s)"
proof (cases "\<exists>i. attributed num cfg upd s i")
  case False
  then have "fst (on_chat_member num cfg e upd s) = s"
    by (simp add: on_chat_member_not_attributed)
  moreover have "snd (interleave num cfg [0, 0, 0, 0, 0, 0] [(e, Arrived upd)] s) = s"
    using False
    by (auto simp: attributed_def Referral_create_def split: option.splits)
  ultimately show ?thesis by simp
next
  case True
  then obtain i where att: "attributed num cfg upd s i" ..
  have i: "i < length (users s)" using att by (rule attributed_bound)
  let ?u = "users s ! i"
  let ?v = "credit (new_user_id upd) ?u"
  let ?s1 = "s\<lparr>referrals := referrals s @
      [\<lparr>joinedUserId = new_user_id upd, inviterUserId = userId ?u,
        chatId = referral_chatId num cfg\<rparr>]\<rparr>"
  have sc: "save_changes i ?u ?v ?s1 = credited num cfg upd s i"
    unfolding credited_def
    by (rule save_changes_alone
          [where xs = "if new_user_id upd \<in> set (invitedUsers ?u) then [] else [new_user_id upd]"
             and ys = "[]"])
       (use i in \<open>simp_all add: credit_simps\<close>)
  have sc2: "save_changes i ?v (?v\<lparr>rewardsClaimed := rewardsClaimed ?u @ ys\<rparr>)
        (credited num cfg upd s i) =
      save i (?v\<lparr>rewardsClaimed := rewardsClaimed ?u @ ys\<rparr>) (credited num cfg upd s i)" for ys
    by (rule save_changes_alone [where xs = "[]" and ys = ys])
       (use i in \<open>simp_all add: credited_simps credit_simps\<close>)
  show ?thesis
    using att
    apply (simp add: on_chat_member_attributed [OF att] Let_def)
    apply (simp add: attributed_def Referral_create_def sc Let_def)
    apply (simp add: sendDueRewards_def credited_simps Let_def split_beta send_loop_claimed sc2
        credit_simps)
    done
qed

lemma joins_in_turn:
  "interleave Number_dec cfg_public [0, 1, 0, 1, 0, 1, 0, 0, 1, 1]
     [(env_ok, Arrived join20), (env_ok, Arrived join21)] after_start =
     ([(env_ok, Finished), (env_ok, Finished)], after_race)"
  using join20_accepted
  by (simp add: channel_rejected_def CHANNEL_CHAT_ID_def normalizeChatId_def startsWith_def
      at_username_def cfg_public_def join21_def join20_def after_start_def after_race_def
      becomes_member_def truthy_def Referral_create_def referral_chatId_def credit_def
      save_changes_def env_ok_def Let_def)

lemma joins_one_after_the_other:
  "users (run Number_dec cfg_public
      [(env_ok, OnChatMember join20), (env_ok, OnChatMember join21)] after_start) =
     [\<lparr>userId = 10, username = Some ''alice'', inviteLink = Some ''https://t.me/+new'',
       invitedUsers = [20, 21], invitesCount = 2, rewardsClaimed = []\<rparr>]"
proof -
  have a: "attributed Number_dec cfg_public join21 after_join 0"
    using join20_accepted
    by (simp add: channel_rejected_def CHANNEL_CHAT_ID_def normalizeChatId_def startsWith_def
        at_username_def cfg_public_def attributed_def becomes_member_def truthy_def join21_def
        join20_def after_join_def)
  have "users (fst (handle_update Number_dec cfg_public env_ok (OnChatMember join21) after_join)) =
     [\<lparr>userId = 10, username = Some ''alice'', inviteLink = Some ''https://t.me/+new'',
       invitedUsers = [20, 21], invitesCount = 2, rewardsClaimed = []\<rparr>]"
    by (simp add: on_chat_member_attributed [OF a] Let_def)
       (simp add: after_join_def join21_def join20_def env_ok_def credited_def credit_def
          save_def sendDueRewards_def Let_def)
  then show ?thesis using join20_after_start by simp
qed

text \<open>
  Claim C5. The code does not keep \<open>invitesCount\<close> equal to the length of \<open>invitedUsers\<close>
  when two joins of one inviter are handled together. Users 20 and 21 join through
  Alice's link and both updates arrive in one batch. Both handlers load Alice's profile
  with an empty list, both inserts succeed, each handler pushes its own user on its copy
  and sets the count to 1, and the two saves push 20 and 21 on the stored list and set the
  stored count to 1 twice: two invited users, a count of 1. The handler sets the count
  from the length of the list (the schema calls it the cached total) and misses the
  other handler's push. Handled one after the other the same two joins give a count of 2.
\<close>

theorem joins_handled_together_miscount:
  "snd (interleave Number_dec cfg_public [0, 1, 0, 1, 0, 1, 0, 0, 1, 1]
          [(env_ok, Arrived join20), (env_ok, Arrived join21)] after_start) = after_race \<and>
   invitedUsers (users after_race ! 0) = [20, 21] \<and>
   invitesCount (users after_race ! 0) = 1 \<and>
   invitesCount (users after_race ! 0) \<noteq> int (length (invitedUsers (users after_race ! 0))) \<and>
   users (run Number_dec cfg_public
      [(env_ok, OnChatMember join20), (env_ok, OnChatMember join21)] after_start) =
     [\<lparr>userId = 10, username = Some ''alice'', inviteLink = Some ''https://t.me/+new'',
       invitedUsers = [20, 21], invitesCount = 2, rewardsClaimed = []\<rparr>]"
  using joins_in_turn joins_one_after_the_other
  by (simp add: after_race_def)

end
